theory Spec2Isabelle
  imports
    Main
    "HOL-Library.Sublist"
    "HOL-Library.Char_ord"
    "HOL-Library.List_Lexorder"
    "HOL-Library.Multiset"
    "HOL-Library.Word"
begin

unbundle bit_operations_syntax

section \<open>The Go library functions the program calls\<close>

text \<open>
  A Go \<^verbatim>\<open>string\<close> and a \<^verbatim>\<open>[]byte\<close> are both sequences of bytes; both are
  \<^typ>\<open>string\<close> here (a \<^typ>\<open>char\<close> is one byte, and the order on it is the order
  of the byte values). The conversions \<^verbatim>\<open>string(b)\<close> and \<^verbatim>\<open>[]byte(s)\<close> are
  the identity.
\<close>

subsection \<open>Slicing\<close>

text \<open>
  \<^verbatim>\<open>b[lo:hi]\<close> and \<^verbatim>\<open>b[lo:]\<close>. A slice expression whose bounds are out of
  range panics at run time: the result is \<open>None\<close> then.
\<close>

definition slice :: "'a list \<Rightarrow> int \<Rightarrow> int \<Rightarrow> 'a list option" where
  "slice b lo hi =
     (if 0 \<le> lo \<and> lo \<le> hi \<and> hi \<le> int (length b)
      then Some (take (nat hi - nat lo) (drop (nat lo) b)) else None)"

definition slice_from :: "'a list \<Rightarrow> int \<Rightarrow> 'a list option" where
  "slice_from b lo = slice b lo (int (length b))"

subsection \<open>\<^verbatim>\<open>bytes.Index\<close>, \<^verbatim>\<open>strings.Index\<close>\<close>

text \<open>
  The index of the first instance of \<open>sep\<close> in \<open>s\<close>, or \<open>-1\<close> when there is none.
\<close>

fun Index :: "string \<Rightarrow> string \<Rightarrow> int" where
  "Index [] sep = (if sep = [] then 0 else - 1)"
| "Index (c # s) sep =
     (if prefix sep (c # s) then 0
      else (let i = Index s sep in if i = - 1 then - 1 else i + 1))"

subsection \<open>\<^verbatim>\<open>strings.Count\<close>, \<^verbatim>\<open>strings.Split\<close>, \<^verbatim>\<open>strings.SplitN\<close>\<close>

lemma Index_range: "Index s sep = - 1 \<or> (0 \<le> Index s sep \<and> Index s sep + int (length sep) \<le> int (length s))"
proof (induction s)
  case Nil
  then show ?case by simp
next
  case (Cons c s)
  show ?case
  proof (cases "prefix sep (c # s)")
    case True
    then have "length sep \<le> length (c # s)" by (rule prefix_length_le)
    with True show ?thesis by simp
  next
    case False
    with Cons show ?thesis by (auto simp: Let_def)
  qed
qed

text \<open>
  \<^verbatim>\<open>strings.Count(s, sep)\<close> counts the non-overlapping instances of a non-empty
  \<open>sep\<close>. (For the empty separator the library counts runes instead; the program
  passes only \<^verbatim>\<open>"\n"\<close> and \<^verbatim>\<open>":"\<close>, and that branch is left out: the model
  answers \<open>0\<close> there.)
\<close>

function Count :: "string \<Rightarrow> string \<Rightarrow> nat" where
  "Count s sep =
     (if sep = [] then 0
      else (let i = Index s sep in
            if i = - 1 then 0
            else Suc (Count (drop (nat i + length sep) s) sep)))"
  by pat_completeness auto
termination
proof (relation "measure (\<lambda>(s, sep). length s)")
  show "wf (measure (\<lambda>(s, sep). length s))" by simp
next
  fix s sep :: string and i :: int
  assume "sep \<noteq> []" and i: "i = Index s sep" and "i \<noteq> - 1"
  with Index_range [of s sep]
  have "0 \<le> i" and "i + int (length sep) \<le> int (length s)" by auto
  moreover from \<open>sep \<noteq> []\<close> have "0 < length sep" by simp
  ultimately have "length s - (nat i + length sep) < length s" by arith
  then have "length (drop (nat i + length sep) s) < length s" by simp
  then show "((drop (nat i + length sep) s, sep), (s, sep)) \<in> measure (\<lambda>(s, sep). length s)"
    by simp
qed

declare Count.simps [simp del]

text \<open>
  The loop of the library's \<^verbatim>\<open>genSplit\<close>: \<open>k\<close> is the number of cuts still
  allowed (\<^verbatim>\<open>n - 1 - i\<close>).
\<close>

fun genSplit_loop :: "nat \<Rightarrow> string \<Rightarrow> string \<Rightarrow> string list" where
  "genSplit_loop 0 s sep = [s]"
| "genSplit_loop (Suc k) s sep =
     (let m = Index s sep in
      if m < 0 then [s]
      else take (nat m) s # genSplit_loop k (drop (nat m + length sep) s) sep)"

text \<open>
  \<^verbatim>\<open>genSplit(s, sep, 0, n)\<close> for a non-empty separator; \<open>n < 0\<close> means no limit.
  (The empty separator, which makes the library explode \<open>s\<close> into runes, is left out:
  the model answers \<open>[]\<close> there.)
\<close>

definition genSplit :: "string \<Rightarrow> string \<Rightarrow> int \<Rightarrow> string list" where
  "genSplit s sep n =
     (if n = 0 then []
      else if sep = [] then []
      else (let n1 = (if n < 0 then int (Count s sep) + 1 else n);
                n2 = (if n1 > int (length s) + 1 then int (length s) + 1 else n1)
            in genSplit_loop (nat (n2 - 1)) s sep))"

definition Split :: "string \<Rightarrow> string \<Rightarrow> string list" where
  "Split s sep = genSplit s sep (- 1)"

definition SplitN :: "string \<Rightarrow> string \<Rightarrow> int \<Rightarrow> string list" where
  "SplitN s sep n = genSplit s sep n"

subsection \<open>\<^verbatim>\<open>strings.TrimSpace\<close>\<close>

text \<open>
  The UTF-8 encodings of the runes for which \<^verbatim>\<open>unicode.IsSpace\<close> holds: tab, line
  feed, vertical tab, form feed, carriage return, space, U+0085, U+00A0, U+1680,
  U+2000 to U+200A, U+2028, U+2029, U+202F, U+205F and U+3000.
\<close>

definition spaceRunes :: "string list" where
  "spaceRunes =
     [[CHR 0x09], [CHR 0x0A], [CHR 0x0B], [CHR 0x0C], [CHR 0x0D], [CHR 0x20],
      [CHR 0xC2, CHR 0x85], [CHR 0xC2, CHR 0xA0],
      [CHR 0xE1, CHR 0x9A, CHR 0x80],
      [CHR 0xE2, CHR 0x80, CHR 0x80], [CHR 0xE2, CHR 0x80, CHR 0x81],
      [CHR 0xE2, CHR 0x80, CHR 0x82], [CHR 0xE2, CHR 0x80, CHR 0x83],
      [CHR 0xE2, CHR 0x80, CHR 0x84], [CHR 0xE2, CHR 0x80, CHR 0x85],
      [CHR 0xE2, CHR 0x80, CHR 0x86], [CHR 0xE2, CHR 0x80, CHR 0x87],
      [CHR 0xE2, CHR 0x80, CHR 0x88], [CHR 0xE2, CHR 0x80, CHR 0x89],
      [CHR 0xE2, CHR 0x80, CHR 0x8A],
      [CHR 0xE2, CHR 0x80, CHR 0xA8], [CHR 0xE2, CHR 0x80, CHR 0xA9],
      [CHR 0xE2, CHR 0x80, CHR 0xAF],
      [CHR 0xE2, CHR 0x81, CHR 0x9F],
      [CHR 0xE3, CHR 0x80, CHR 0x80]]"

text \<open>
  The width in bytes of the white-space rune that \<open>s\<close> starts with, \<open>0\<close> when it
  starts with none. A rune has one valid encoding and the decoder accepts no other, so
  the rune decoded at the front of \<open>s\<close> is a white-space rune exactly when one of the
  encodings above is a prefix of \<open>s\<close>.
\<close>

fun leadingSpace :: "string list \<Rightarrow> string \<Rightarrow> nat" where
  "leadingSpace [] s = 0"
| "leadingSpace (r # rs) s = (if prefix r s then length r else leadingSpace rs s)"

text \<open>
  The same at the end of \<open>s\<close>: the decoder that reads the last rune steps back to the
  nearest byte that can start a rune, at most three bytes, and accepts what it decodes
  there when it reaches the end of \<open>s\<close> exactly.
\<close>

fun trailingSpace :: "string list \<Rightarrow> string \<Rightarrow> nat" where
  "trailingSpace [] s = 0"
| "trailingSpace (r # rs) s = (if suffix r s then length r else trailingSpace rs s)"

lemma leadingSpace_le: "leadingSpace rs s \<le> length s"
  by (induction rs) (auto simp: prefix_length_le)

lemma trailingSpace_le: "trailingSpace rs s \<le> length s"
  by (induction rs) (auto simp: suffix_length_le)

function TrimLeft :: "string \<Rightarrow> string" where
  "TrimLeft s =
     (let w = leadingSpace spaceRunes s in if w = 0 then s else TrimLeft (drop w s))"
  by pat_completeness auto
termination
proof (relation "measure length")
  show "wf (measure length)" by simp
next
  fix s :: string and w :: nat
  assume "w = leadingSpace spaceRunes s" and "w \<noteq> 0"
  with leadingSpace_le [of spaceRunes s] have "0 < w" and "w \<le> length s" by auto
  then show "(drop w s, s) \<in> measure length" by simp
qed

function TrimRight :: "string \<Rightarrow> string" where
  "TrimRight s =
     (let w = trailingSpace spaceRunes s in
      if w = 0 then s else TrimRight (take (length s - w) s))"
  by pat_completeness auto
termination
proof (relation "measure length")
  show "wf (measure length)" by simp
next
  fix s :: string and w :: nat
  assume "w = trailingSpace spaceRunes s" and "w \<noteq> 0"
  with trailingSpace_le [of spaceRunes s] have "0 < w" and "w \<le> length s" by auto
  then show "(take (length s - w) s, s) \<in> measure length" by simp
qed

declare TrimLeft.simps [simp del] TrimRight.simps [simp del]

text \<open>
  \<^verbatim>\<open>strings.TrimSpace\<close> removes all leading and all trailing white-space runes.
\<close>

definition TrimSpace :: "string \<Rightarrow> string" where
  "TrimSpace s = TrimRight (TrimLeft s)"

subsection \<open>\<^verbatim>\<open>strings.HasSuffix\<close>, \<^verbatim>\<open>strings.TrimSuffix\<close>, \<^verbatim>\<open>strings.Replace\<close>\<close>

definition HasSuffix :: "string \<Rightarrow> string \<Rightarrow> bool" where
  "HasSuffix s suf =
     (length s \<ge> length suf \<and> drop (length s - length suf) s = suf)"

definition TrimSuffix :: "string \<Rightarrow> string \<Rightarrow> string" where
  "TrimSuffix s suf = (if HasSuffix s suf then take (length s - length suf) s else s)"

text \<open>
  \<^verbatim>\<open>strings.Replace(s, old, new, n)\<close> replaces the first \<open>n\<close> non-overlapping
  instances of a non-empty \<open>old\<close>, all of them when \<open>n < 0\<close>. The library runs
  its loop as many times as there are instances to replace, so the search in the loop
  always finds one; the branch of \<open>Replace_loop\<close> for a search that finds none is
  there to make the function total.
\<close>

fun Replace_loop :: "nat \<Rightarrow> string \<Rightarrow> string \<Rightarrow> string \<Rightarrow> string" where
  "Replace_loop 0 s old new = s"
| "Replace_loop (Suc k) s old new =
     (let j = Index s old in
      if j < 0 then s
      else take (nat j) s @ new @ Replace_loop k (drop (nat j + length old) s) old new)"

definition Replace :: "string \<Rightarrow> string \<Rightarrow> string \<Rightarrow> int \<Rightarrow> string" where
  "Replace s old new n =
     (if old = new \<or> n = 0 then s
      else (let m = int (Count s old) in
            if m = 0 then s
            else Replace_loop (nat (if n < 0 \<or> m < n then m else n)) s old new))"

subsection \<open>\<^verbatim>\<open>filepath.Ext\<close>\<close>

text \<open>
  The library walks back from the end of the path, stops at a path separator (the
  slash: the model is the Unix one) and returns the text from the first dot it meets.
  \<open>Ext_loop\<close> reads the reversed path; \<open>acc\<close> is what it has walked over.
\<close>

fun Ext_loop :: "string \<Rightarrow> string \<Rightarrow> string" where
  "Ext_loop [] acc = []"
| "Ext_loop (c # r) acc =
     (if c = CHR ''/'' then []
      else if c = CHR ''.'' then c # acc
      else Ext_loop r (c # acc))"

definition Ext :: "string \<Rightarrow> string" where
  "Ext path = Ext_loop (rev path) []"

subsection \<open>\<^verbatim>\<open>strings.Compare\<close>\<close>

definition Compare :: "string \<Rightarrow> string \<Rightarrow> int" where
  "Compare a b = (if a = b then 0 else if a < b then - 1 else 1)"

subsection \<open>Maps\<close>

text \<open>
  A Go \<^verbatim>\<open>map[string]string\<close> is \<open>None\<close> when it is \<^verbatim>\<open>nil\<close> and holds its
  entries otherwise. Reading a \<^verbatim>\<open>nil\<close> map is allowed and finds no entry; reading
  a key that is absent yields the zero value, the empty string.
\<close>

type_synonym gomap = "(string \<rightharpoonup> string) option"

definition entries :: "gomap \<Rightarrow> (string \<rightharpoonup> string)" where
  "entries m = (case m of None \<Rightarrow> Map.empty | Some f \<Rightarrow> f)"

definition index_map :: "gomap \<Rightarrow> string \<Rightarrow> string" where
  "index_map m k = (case entries m k of None \<Rightarrow> [] | Some v \<Rightarrow> v)"

section \<open>Metadata extraction: \<^verbatim>\<open>readMeta\<close>\<close>

text \<open>
  The body of the loop over the lines of the preamble: a line that \<^verbatim>\<open>SplitN\<close>
  cuts in two at its first \<^verbatim>\<open>":"\<close> stores the trimmed value under the trimmed key.
\<close>

definition readMeta_line :: "string \<Rightarrow> (string \<rightharpoonup> string) \<Rightarrow> (string \<rightharpoonup> string)" where
  "readMeta_line line meta =
     (let keyval = SplitN line '':'' 2 in
      if length keyval = 2
      then (let key = TrimSpace (keyval ! 0); val = TrimSpace (keyval ! 1)
            in meta(key \<mapsto> val))
      else meta)"

text \<open>
  \<^verbatim>\<open>readMeta\<close> returns the metadata and the body; \<open>None\<close> is a run-time panic of
  one of its slice expressions.
\<close>

definition readMeta :: "string \<Rightarrow> (gomap \<times> string) option" where
  "readMeta b =
     (let delim = ''---'' in
      if length b < 3 \<or> slice b 0 3 \<noteq> Some delim then Some (None, b)
      else
        (case slice_from b 3 of
           None \<Rightarrow> None
         | Some rest \<Rightarrow>
             (let i = Index rest delim in
              if i = - 1 then Some (None, b)
              else
                (case slice b 3 (i + 3) of
                   None \<Rightarrow> None
                 | Some pre \<Rightarrow>
                     (let meta = fold readMeta_line (Split pre ''\<newline>'') Map.empty in
                      case slice_from b (i + 6) of
                        None \<Rightarrow> None
                      | Some body \<Rightarrow> Some (Some meta, body))))))"

section \<open>Pages and their order\<close>

record Page =
  Meta :: gomap
  Text :: string
  Url :: string
  HTML :: string
  AbsPath :: string
  RelPath :: string

definition sortKey :: "Page \<Rightarrow> string" where
  "sortKey p = index_map (Meta p) ''date''"

text \<open>
  The three methods that make \<^verbatim>\<open>Pages\<close> sortable. The library calls them with
  indices below \<^verbatim>\<open>Len\<close> only.
\<close>

definition Len :: "Page list \<Rightarrow> nat" where
  "Len p = length p"

definition Less :: "Page list \<Rightarrow> nat \<Rightarrow> nat \<Rightarrow> bool" where
  "Less p i j = (Compare (sortKey (p ! i)) (sortKey (p ! j)) > 0)"

definition Swap :: "Page list \<Rightarrow> nat \<Rightarrow> nat \<Rightarrow> Page list" where
  "Swap p i j = p[i := p ! j, j := p ! i]"

text \<open>
  \<^verbatim>\<open>sort.Stable\<close>. The library sorts blocks of 20 elements by insertion and merges
  the blocks in place; the model is its insertion sort over the whole sequence,
  \<^verbatim>\<open>for i := a + 1; i < b; i++ { for j := i; j > a && data.Less(j, j-1); j-- {
  data.Swap(j, j-1) } }\<close> with \<open>a = 0\<close> and \<open>b = Len\<close>. A stable sort has one
  result (\<open>Stable_unique\<close> below), so the merge of longer inputs yields the same
  sequence.
\<close>

fun insertionSort_inner :: "Page list \<Rightarrow> nat \<Rightarrow> Page list" where
  "insertionSort_inner p 0 = p"
| "insertionSort_inner p (Suc j) =
     (if Less p (Suc j) j then insertionSort_inner (Swap p (Suc j) j) j else p)"

fun insertionSort_outer :: "Page list \<Rightarrow> nat \<Rightarrow> nat \<Rightarrow> Page list" where
  "insertionSort_outer p i 0 = p"
| "insertionSort_outer p i (Suc n) = insertionSort_outer (insertionSort_inner p i) (Suc i) n"

definition Stable :: "Page list \<Rightarrow> Page list" where
  "Stable p = insertionSort_outer p 1 (Len p - 1)"

section \<open>Insertion on lists\<close>

text \<open>
  What the inner loop of the insertion sort does, read on lists: \<open>r\<close> is the sorted
  part in reverse, nearest neighbour first, and \<open>x\<close> moves past its neighbours as
  long as \<^verbatim>\<open>Less\<close> puts it before them.
\<close>

fun place :: "Page \<Rightarrow> Page list \<Rightarrow> Page list" where
  "place x [] = [x]"
| "place x (y # r) = (if sortKey y < sortKey x then y # place x r else x # y # r)"

section \<open>The template function \<^verbatim>\<open>dateformat\<close>\<close>

text \<open>An error is the text that its \<^verbatim>\<open>Error\<close> method returns.\<close>

type_synonym err = string

definition dateFormats :: "string \<rightharpoonup> string" where
  "dateFormats =
     [''rfc822'' \<mapsto> ''02 Jan 06 15:04 MST'',
      ''yyyy-mm-dd'' \<mapsto> ''2006-01-02'',
      ''shortdate'' \<mapsto> ''02 Jan 2006'']"

text \<open>
  \<^verbatim>\<open>time.Parse\<close> and \<^verbatim>\<open>Time.Format\<close> are the library's: \<open>Parse layout value\<close>
  returns a time and an error or none, \<open>Format t layout\<close> a string.
\<close>

definition dateformat ::
  "(string \<Rightarrow> string \<Rightarrow> 'tm \<times> err option) \<Rightarrow> ('tm \<Rightarrow> string \<Rightarrow> string) \<Rightarrow>
   string \<Rightarrow> string \<Rightarrow> string \<Rightarrow> err + string" where
  "dateformat Parse Format src dst input =
     (case dateFormats src of
        None \<Rightarrow> Inl (''unknown date format: '' @ src)
      | Some srcfmt \<Rightarrow>
          (case dateFormats dst of
             None \<Rightarrow> Inl (''unknown date format: '' @ dst)
           | Some dstfmt \<Rightarrow>
               (let t = fst (Parse srcfmt input) in Inr (Format t dstfmt))))"

section \<open>The program and what surrounds it\<close>

text \<open>
  What the run takes from outside: the file system as it is read, the path functions,
  the template engine, the Markdown converter and the two embedded assets. A file is
  its permission bits and its content.
\<close>

type_synonym inode = "32 word \<times> string"

record 't env =
  ReadFile :: "string \<Rightarrow> err + string"
  Join :: "string \<Rightarrow> string \<Rightarrow> string"
  Rel :: "string \<Rightarrow> string \<Rightarrow> err + string"
  WalkDir :: "string \<Rightarrow> (string \<times> err option) list"
  ParseTmpl :: "string \<Rightarrow> err + 't"
  Execute :: "'t \<Rightarrow> Page \<Rightarrow> Page list \<Rightarrow> err + string"
  Convert :: "string \<Rightarrow> err + string"
  defaultCSS :: string
  defaultHTML :: string
  umask :: "32 word"
  WriteFault :: "string \<Rightarrow> (err \<times> inode option) option"

text \<open>
  \<open>WalkDir env root\<close> lists the calls that \<^verbatim>\<open>filepath.WalkDir\<close> makes to a
  callback that always returns \<^verbatim>\<open>nil\<close>, as the program's does: the path of each
  call and the error the walk reports with it, if any. \<open>WriteFault env name\<close> is
  \<open>None\<close> when a write to \<open>name\<close> succeeds; otherwise it is the error and what
  the failed write leaves at \<open>name\<close>.

  The run ends early in two ways: \<^verbatim>\<open>log.Fatal\<close> logs a line and exits with status
  1, and a panic.
\<close>

datatype abort = Fatal string | Panic string

record world =
  files :: "string \<rightharpoonup> inode"
  logged :: "string list"

definition log_Println :: "string \<Rightarrow> world \<Rightarrow> world" where
  "log_Println line w = w\<lparr>logged := logged w @ [line]\<rparr>"

definition log_Fatal :: "string \<Rightarrow> world \<Rightarrow> abort option \<times> world" where
  "log_Fatal line w = (Some (Fatal line), log_Println line w)"

text \<open>The permission bits that the program writes as octal \<^verbatim>\<open>0600\<close>.\<close>

definition perm0600 :: "32 word" where
  "perm0600 = 0x180"

text \<open>
  \<^verbatim>\<open>os.WriteFile(name, data, perm)\<close> creates the file with the permissions
  \<open>perm\<close> less the bits of the process's umask when it does not exist, and
  truncates it without changing its permissions when it does.
\<close>

definition WriteFile ::
  "'t env \<Rightarrow> (string \<rightharpoonup> inode) \<Rightarrow> string \<Rightarrow> string \<Rightarrow> 32 word \<Rightarrow>
   (string \<rightharpoonup> inode) \<times> err option" where
  "WriteFile env fs name data perm =
     (case WriteFault env name of
        Some (e, left) \<Rightarrow> (fs(name := left), Some e)
      | None \<Rightarrow>
          (case fs name of
             None \<Rightarrow> (fs(name \<mapsto> (perm AND NOT (umask env), data)), None)
           | Some (mode, old) \<Rightarrow> (fs(name \<mapsto> (mode, data)), None)))"

subsection \<open>\<^verbatim>\<open>readPage\<close>\<close>

definition readPage_url :: "string \<Rightarrow> string" where
  "readPage_url relpath =
     (let url = TrimSuffix relpath (Ext relpath) @ ''.html'' in
      TrimSuffix url ''index.html'')"

definition readPage :: "'t env \<Rightarrow> string \<Rightarrow> string \<Rightarrow> abort + Page" where
  "readPage env abspath siteDir =
     (case ReadFile env abspath of
        Inl e \<Rightarrow> Inl (Fatal (''failed to read page:'' @ e))
      | Inr text \<Rightarrow>
          (case readMeta text of
             None \<Rightarrow> Inl (Panic ''slice bounds out of range'')
           | Some (meta, text') \<Rightarrow>
               (case Rel env siteDir abspath of
                  Inl e \<Rightarrow> Inl (Fatal (''failed to get page extension:'' @ e))
                | Inr relpath \<Rightarrow>
                    Inr \<lparr>Meta = meta, Text = text', Url = readPage_url relpath,
                         HTML = [], AbsPath = abspath, RelPath = relpath\<rparr>)))"

subsection \<open>\<^verbatim>\<open>readTmpl\<close>\<close>

definition Must :: "err + 't \<Rightarrow> abort + 't" where
  "Must r = (case r of Inl e \<Rightarrow> Inl (Panic e) | Inr t \<Rightarrow> Inr t)"

definition readTmpl_default :: "'t env \<Rightarrow> abort + 't" where
  "readTmpl_default env =
     (let text = Replace (defaultHTML env) ''STYLE_PLACEHOLDER'' (defaultCSS env) 1
      in Must (ParseTmpl env text))"

definition readTmpl :: "'t env \<Rightarrow> string \<Rightarrow> abort + 't" where
  "readTmpl env siteDir =
     (let tmplPath = Join env siteDir ''base.tmpl'' in
      case ReadFile env tmplPath of
        Inl e \<Rightarrow> readTmpl_default env
      | Inr tmplText \<Rightarrow>
          (case ParseTmpl env tmplText of
             Inl e \<Rightarrow> readTmpl_default env
           | Inr tmpl \<Rightarrow> Inr tmpl))"

subsection \<open>\<^verbatim>\<open>main\<close>\<close>

text \<open>
  The callback that \<^verbatim>\<open>main\<close> gives to \<^verbatim>\<open>filepath.WalkDir\<close>, run over the calls
  of the walk. It looks at the path only: the error of the call is not read.
\<close>

fun walk_pages ::
  "'t env \<Rightarrow> string \<Rightarrow> (string \<times> err option) list \<Rightarrow> Page list \<Rightarrow> abort + Page list" where
  "walk_pages env siteDir [] pages = Inr pages"
| "walk_pages env siteDir ((path, err) # calls) pages =
     (if Ext path \<noteq> ''.md'' then walk_pages env siteDir calls pages
      else
        (case readPage env path siteDir of
           Inl a \<Rightarrow> Inl a
         | Inr page \<Rightarrow> walk_pages env siteDir calls (pages @ [page])))"

definition outPath :: "Page \<Rightarrow> string" where
  "outPath page =
     (let ext = Ext (AbsPath page) in TrimSuffix (AbsPath page) ext @ ''.html'')"

text \<open>The body of the loop over the sorted pages.\<close>

definition render_page ::
  "'t env \<Rightarrow> 't \<Rightarrow> Page list \<Rightarrow> Page \<Rightarrow> world \<Rightarrow> abort option \<times> world" where
  "render_page env baseTmpl pages page w0 =
     (let w = log_Println (''* '' @ outPath page) w0 in
      case Convert env (Text page) of
        Inl e \<Rightarrow> log_Fatal (''failed to convert markdown:'' @ e) w
      | Inr body \<Rightarrow>
          (let page' = page\<lparr>HTML := body\<rparr> in
           case Execute env baseTmpl page' pages of
             Inl e \<Rightarrow> log_Fatal (''failed to render page:'' @ e) w
           | Inr body' \<Rightarrow>
               (case WriteFile env (files w) (outPath page) body' perm0600 of
                  (fs, Some e) \<Rightarrow> log_Fatal (''failed to write file:'' @ e) (w\<lparr>files := fs\<rparr>)
                | (fs, None) \<Rightarrow> (None, w\<lparr>files := fs\<rparr>))))"

fun render_pages ::
  "'t env \<Rightarrow> 't \<Rightarrow> Page list \<Rightarrow> Page list \<Rightarrow> world \<Rightarrow> abort option \<times> world" where
  "render_pages env baseTmpl pages [] w = (None, w)"
| "render_pages env baseTmpl pages (page # rest) w =
     (case render_page env baseTmpl pages page w of
        (Some a, w') \<Rightarrow> (Some a, w')
      | (None, w') \<Rightarrow> render_pages env baseTmpl pages rest w')"

definition main :: "'t env \<Rightarrow> string list \<Rightarrow> world \<Rightarrow> abort option \<times> world" where
  "main env args w =
     (if length args \<noteq> 2
      then (case args of
              [] \<Rightarrow> (Some (Panic ''index out of range''), w)
            | a0 # _ \<Rightarrow> log_Fatal (''usage: '' @ a0 @ '' /path/to/site'') w)
      else
        (let siteDir = args ! 1 in
         case readTmpl env siteDir of
           Inl a \<Rightarrow> (Some a, w)
         | Inr baseTmpl \<Rightarrow>
             (case walk_pages env siteDir (WalkDir env siteDir) [] of
                Inl (Fatal line) \<Rightarrow> log_Fatal line w
              | Inl (Panic e) \<Rightarrow> (Some (Panic e), w)
              | Inr pages \<Rightarrow>
                  (let sorted = Stable pages in
                   render_pages env baseTmpl sorted sorted w))))"

section \<open>The specification of the preamble\<close>

text \<open>
  What the specification says of a preamble, to compare \<open>readMeta\<close> with: the text
  between the delimiters is cut into lines at each line feed; a line with a colon gives
  the key before its first colon and the value after it, both trimmed; a line without a
  colon gives nothing; of two lines with the same key the later one counts.
\<close>

fun spec_split :: "char \<Rightarrow> string \<Rightarrow> string list" where
  "spec_split c [] = [[]]"
| "spec_split c (x # xs) =
     (if x = c then [] # spec_split c xs
      else (case spec_split c xs of [] \<Rightarrow> [[x]] | l # ls \<Rightarrow> (x # l) # ls))"

definition spec_keyval :: "string \<Rightarrow> (string \<times> string) option" where
  "spec_keyval line =
     (if CHR '':'' \<in> set line
      then Some (TrimSpace (takeWhile (\<lambda>x. x \<noteq> CHR '':'') line),
                 TrimSpace (tl (dropWhile (\<lambda>x. x \<noteq> CHR '':'') line)))
      else None)"

definition spec_meta :: "string list \<Rightarrow> (string \<rightharpoonup> string)" where
  "spec_meta lines = map_of (rev (List.map_filter spec_keyval lines))"

section \<open>Sample inputs\<close>

definition sample_doc :: string where
  "sample_doc =
     ''---\<newline>title:  Hi there \<newline>date: 2024\<newline>no colon\<newline>date:2025: x\<newline>---\<newline>body''"



text \<open>
  A site: \<^verbatim>\<open>index.md\<close> with a preamble, \<^verbatim>\<open>notes/a.md\<close> without one, a directory
  that cannot be read and a style sheet; no \<^verbatim>\<open>base.tmpl\<close>. A template is its text
  here; it fails to parse when it opens an action and never closes one.
\<close>

definition sample_index :: string where
  "sample_index = ''---\<newline>date: 2024-05-01\<newline>---\<newline># Home''"

definition sample_read :: "string \<Rightarrow> err + string" where
  "sample_read path =
     (if path = ''site/index.md'' then Inr sample_index
      else if path = ''site/notes/a.md'' then Inr ''hello''
      else Inl (''open '' @ path @ '': no such file or directory''))"

definition sample_rel :: "string \<Rightarrow> string \<Rightarrow> err + string" where
  "sample_rel root path =
     (if prefix (root @ ''/'') path then Inr (drop (length root + 1) path)
      else Inl ''Rel: cannot make the path relative'')"

definition sample_walk :: "(string \<times> err option) list" where
  "sample_walk =
     [(''site'', None), (''site/index.md'', None), (''site/notes'', None),
      (''site/notes/a.md'', None), (''site/private'', None),
      (''site/private'', Some ''open site/private: permission denied''),
      (''site/style.css'', None)]"

definition sample_parse :: "string \<Rightarrow> err + string" where
  "sample_parse text =
     (if Index text ''{{'' \<noteq> - 1 \<and> Index text ''}}'' = - 1
      then Inl ''template: base:1: unclosed action'' else Inr text)"

definition sample_env :: "string env" where
  "sample_env =
     \<lparr>ReadFile = sample_read,
      Join = (\<lambda>dir name. dir @ ''/'' @ name),
      Rel = sample_rel,
      WalkDir = (\<lambda>root. sample_walk),
      ParseTmpl = sample_parse,
      Execute = (\<lambda>tmpl page pages. Inr (tmpl @ HTML page)),
      Convert = (\<lambda>text. Inr (''<p>'' @ text @ ''</p>'')),
      defaultCSS = ''body{}'',
      defaultHTML = ''<style>STYLE_PLACEHOLDER</style>'',
      umask = 0x12,
      WriteFault = (\<lambda>name. None)\<rparr>"

text \<open>
  A stand-in for the time library: a time is a string, parsing succeeds when the value is
  as long as the layout and returns the zero time, the empty string, with an error
  otherwise.
\<close>

definition sample_time_parse :: "string \<Rightarrow> string \<Rightarrow> string \<times> err option" where
  "sample_time_parse layout v =
     (if length v = length layout then (v, None)
      else ([], Some (''parsing time '' @ v @ '' as '' @ layout)))"

definition sample_time_format :: "string \<Rightarrow> string \<Rightarrow> string" where
  "sample_time_format t layout = (if t = [] then ''0001-01-01 as '' @ layout else t @ '' as '' @ layout)"

text \<open>The same site with a \<^verbatim>\<open>base.tmpl\<close> of its own, one that parses and one that does not.\<close>

definition with_template :: "string \<Rightarrow> string env \<Rightarrow> string env" where
  "with_template text env =
     env\<lparr>ReadFile := (\<lambda>path. if path = ''site/base.tmpl'' then Inr text else ReadFile env path)\<rparr>"

definition good_template :: string where
  "good_template = ''<html>{{.Page.HTML}}</html>''"

definition bad_template :: string where
  "bad_template = ''<html>{{.Page.HTML</html>''"

text \<open>The same site with a file that cannot be read, and a disk with nothing on it.\<close>

definition unreadable :: "string \<Rightarrow> string env \<Rightarrow> string env" where
  "unreadable name env =
     env\<lparr>ReadFile := (\<lambda>path. if path = name then Inl (''open '' @ name @ '': permission denied'')
                              else ReadFile env path)\<rparr>"

definition sample_world :: world where
  "sample_world = \<lparr>files = Map.empty, logged = []\<rparr>"

text \<open>
  The same site with a converter that fails on one text; whether a line of the log
  mentions a string; the sorted registry of a run on the site; and a disk that already
  holds \<^verbatim>\<open>site/index.html\<close>, with the permissions \<^verbatim>\<open>0644\<close>.
\<close>

definition broken_convert :: "string \<Rightarrow> string env \<Rightarrow> string env" where
  "broken_convert bad env =
     env\<lparr>Convert := (\<lambda>text. if text = bad then Inl ''unexpected input'' else Convert env text)\<rparr>"

definition mentions :: "string \<Rightarrow> string list \<Rightarrow> bool" where
  "mentions s lines = list_ex (\<lambda>line. Index line s \<noteq> - 1) lines"

definition sample_registry :: "string env \<Rightarrow> Page list" where
  "sample_registry env = Stable (projr (walk_pages env ''site'' (WalkDir env ''site'') []))"

definition old_world :: world where
  "old_world = \<lparr>files = [''site/index.html'' \<mapsto> (0x1A4, ''old'')], logged = []\<rparr>"

section \<open>Facts about the library functions\<close>

lemma Index_nonneg: "Index s sep = - 1 \<or> 0 \<le> Index s sep"
  using Index_range [of s sep] by blast

lemma Index_none_iff: "Index s sep = - 1 \<longleftrightarrow> \<not> sublist sep s"
proof (induction s)
  case Nil
  then show ?case by simp
next
  case (Cons c s)
  show ?case
  proof (cases "prefix sep (c # s)")
    case True
    then show ?thesis by (simp add: sublist_Cons_right)
  next
    case False
    with Cons Index_nonneg [of s sep] show ?thesis
      by (auto simp: Let_def sublist_Cons_right)
  qed
qed

lemma Index_first:
  "Index s sep = int i \<Longrightarrow> prefix sep (drop i s) \<and> (\<forall>j<i. \<not> prefix sep (drop j s))"
proof (induction s arbitrary: i)
  case Nil
  then show ?case by (auto split: if_splits)
next
  case (Cons c s)
  show ?case
  proof (cases "prefix sep (c # s)")
    case True
    with Cons.prems show ?thesis by simp
  next
    case False
    with Cons.prems have ne: "Index s sep \<noteq> - 1" and i: "int i = Index s sep + 1"
      by (auto simp: Let_def split: if_splits)
    from ne Index_nonneg [of s sep] have "0 \<le> Index s sep" by blast
    then obtain k where k: "Index s sep = int k"
      using zero_le_imp_eq_int by blast
    with i have i': "i = Suc k" by simp
    from Cons.IH [OF k] have "prefix sep (drop k s)" and "\<forall>j<k. \<not> prefix sep (drop j s)"
      by auto
    with False i' show ?thesis by (auto simp: less_Suc_eq_0_disj)
  qed
qed

lemma slice_take: "n \<le> length b \<Longrightarrow> slice b 0 (int n) = Some (take n b)"
  by (simp add: slice_def)

lemma slice_from_drop: "n \<le> length b \<Longrightarrow> slice_from b (int n) = Some (drop n b)"
  by (simp add: slice_from_def slice_def)

lemma prefix_delim: "prefix ''---'' b \<longleftrightarrow> 3 \<le> length b \<and> take 3 b = ''---''"
proof
  assume "prefix ''---'' b"
  then obtain r where "b = ''---'' @ r" by (auto simp: prefix_def)
  then show "3 \<le> length b \<and> take 3 b = ''---''" by simp
next
  assume "3 \<le> length b \<and> take 3 b = ''---''"
  then have eq: "take 3 b = ''---''" by simp
  have "prefix (take 3 b) b" by (rule take_is_prefix)
  then show "prefix ''---'' b" unfolding eq .
qed

lemma Index_single:
  "Index s [c] = (if c \<in> set s then int (length (takeWhile (\<lambda>x. x \<noteq> c) s)) else - 1)"
  by (induction s) (auto simp: Let_def)

lemma drop_takeWhile_single:
  "c \<in> set s \<Longrightarrow> drop (Suc (length (takeWhile (\<lambda>x. x \<noteq> c) s))) s = tl (dropWhile (\<lambda>x. x \<noteq> c) s)"
  by (induction s) auto

lemma take_takeWhile_single:
  "take (length (takeWhile P s)) s = takeWhile P s"
  by (induction s) auto

lemma spec_split_unfold:
  "spec_split c s =
     (if c \<in> set s
      then takeWhile (\<lambda>x. x \<noteq> c) s # spec_split c (tl (dropWhile (\<lambda>x. x \<noteq> c) s))
      else [s])"
  by (induction s) (auto split: list.splits)

lemma count_tl_dropWhile:
  "c \<in> set s \<Longrightarrow>
   length (filter (\<lambda>x. x = c) s) = Suc (length (filter (\<lambda>x. x = c) (tl (dropWhile (\<lambda>x. x \<noteq> c) s))))"
  by (induction s) auto

lemma genSplit_loop_single:
  "length (filter (\<lambda>x. x = c) s) \<le> k \<Longrightarrow> genSplit_loop k s [c] = spec_split c s"
proof (induction k arbitrary: s)
  case 0
  then have "c \<notin> set s" by (auto simp: filter_empty_conv)
  then show ?case by (simp add: spec_split_unfold)
next
  case (Suc k)
  show ?case
  proof (cases "c \<in> set s")
    case False
    then show ?thesis by (simp add: Index_single spec_split_unfold)
  next
    case True
    with Suc.prems have "length (filter (\<lambda>x. x = c) (tl (dropWhile (\<lambda>x. x \<noteq> c) s))) \<le> k"
      by (simp add: count_tl_dropWhile)
    from Suc.IH [OF this] True show ?thesis
      by (simp add: Index_single Let_def drop_takeWhile_single take_takeWhile_single
          spec_split_unfold [of c s])
  qed
qed

lemma Count_single: "Count s [c] = length (filter (\<lambda>x. x = c) s)"
proof (induction s rule: length_induct)
  case (1 s)
  show ?case
  proof (cases "c \<in> set s")
    case False
    then have "filter (\<lambda>x. x = c) s = []" by (auto simp: filter_empty_conv)
    with False show ?thesis by (simp add: Count.simps [of s] Index_single)
  next
    case True
    let ?r = "tl (dropWhile (\<lambda>x. x \<noteq> c) s)"
    have "length ?r < length s"
      using length_dropWhile_le [of "\<lambda>x. x \<noteq> c" s] True
      by (cases "dropWhile (\<lambda>x. x \<noteq> c) s") auto
    with 1 have "Count ?r [c] = length (filter (\<lambda>x. x = c) ?r)" by blast
    with True show ?thesis
      by (simp add: Count.simps [of s] Index_single Let_def drop_takeWhile_single
          count_tl_dropWhile [of c s])
  qed
qed

lemma Split_single: "Split s [c] = spec_split c s"
proof -
  have "length (filter (\<lambda>x. x = c) s) \<le> length s" by simp
  then show ?thesis
    by (simp add: Split_def genSplit_def Let_def Count_single genSplit_loop_single)
qed

lemma SplitN_2_single:
  "SplitN s [c] 2 =
     (if c \<in> set s
      then [takeWhile (\<lambda>x. x \<noteq> c) s, tl (dropWhile (\<lambda>x. x \<noteq> c) s)]
      else [s])"
proof (cases s)
  case Nil
  then show ?thesis by (simp add: SplitN_def genSplit_def)
next
  case (Cons x xs)
  then have "genSplit s [c] 2 = genSplit_loop (Suc 0) s [c]"
    by (simp add: genSplit_def)
  then show ?thesis
    by (simp add: SplitN_def Index_single Let_def drop_takeWhile_single take_takeWhile_single)
qed

lemma readMeta_line_spec:
  "readMeta_line line meta =
     (case spec_keyval line of None \<Rightarrow> meta | Some (k, v) \<Rightarrow> meta(k \<mapsto> v))"
  by (simp add: readMeta_line_def spec_keyval_def SplitN_2_single Let_def)

lemma fold_readMeta_line:
  "fold readMeta_line lines meta = meta ++ spec_meta lines"
proof (induction lines arbitrary: meta)
  case Nil
  then show ?case by (simp add: spec_meta_def List.map_filter_simps)
next
  case (Cons l ls)
  show ?case
  proof (cases "spec_keyval l")
    case None
    with Cons show ?thesis
      by (simp add: readMeta_line_spec spec_meta_def List.map_filter_simps)
  next
    case (Some kv)
    obtain k v where kv: "kv = (k, v)" by (cases kv)
    from Some kv have step: "readMeta_line l meta = meta(k \<mapsto> v)"
      by (simp add: readMeta_line_spec)
    from Some kv have "spec_meta (l # ls) = map_of (rev (List.map_filter spec_keyval ls) @ [(k, v)])"
      by (simp add: spec_meta_def List.map_filter_simps)
    also have "\<dots> = [k \<mapsto> v] ++ spec_meta ls"
      by (simp add: spec_meta_def)
    finally have sm: "spec_meta (l # ls) = [k \<mapsto> v] ++ spec_meta ls" .
    have "fold readMeta_line (l # ls) meta = fold readMeta_line ls (meta(k \<mapsto> v))"
      using step by simp
    also have "\<dots> = meta(k \<mapsto> v) ++ spec_meta ls" by (rule Cons.IH)
    also have "meta(k \<mapsto> v) = meta ++ [k \<mapsto> v]" by simp
    also have "(meta ++ [k \<mapsto> v]) ++ spec_meta ls = meta ++ spec_meta (l # ls)"
      unfolding sm by (rule map_add_assoc [symmetric])
    finally show ?thesis .
  qed
qed

lemma sublist_drop: "sublist xs ys \<longleftrightarrow> (\<exists>j. prefix xs (drop j ys))"
proof
  assume "sublist xs ys"
  then obtain ps ss where "ys = ps @ xs @ ss" by (auto simp: sublist_def)
  then have "prefix xs (drop (length ps) ys)" by simp
  then show "\<exists>j. prefix xs (drop j ys)" ..
next
  assume "\<exists>j. prefix xs (drop j ys)"
  then obtain j zs where "drop j ys = xs @ zs" by (auto simp: prefix_def)
  then have "ys = take j ys @ xs @ zs" by (metis append_take_drop_id)
  then show "sublist xs ys" by (auto simp: sublist_def)
qed

lemma Index_split:
  assumes "Index s sep = int n"
  shows "s = take n s @ sep @ drop (n + length sep) s"
    and "sep \<noteq> [] \<Longrightarrow> \<not> sublist sep (take n s @ butlast sep)"
proof -
  from Index_first [OF assms]
  have p: "prefix sep (drop n s)" and first: "\<forall>j<n. \<not> prefix sep (drop j s)" by auto
  from p obtain zs where zs: "drop n s = sep @ zs" by (auto simp: prefix_def)
  then have "drop (length sep) (drop n s) = zs" by simp
  then have "zs = drop (n + length sep) s" by (simp add: add.commute)
  with zs have d: "drop n s = sep @ drop (n + length sep) s" by simp
  then show s: "s = take n s @ sep @ drop (n + length sep) s"
    by (metis append_take_drop_id)
  show "\<not> sublist sep (take n s @ butlast sep)" if ne: "sep \<noteq> []"
  proof
    let ?t = "take n s @ butlast sep"
    assume "sublist sep ?t"
    then obtain j where j: "prefix sep (drop j ?t)" by (auto simp: sublist_drop)
    from Index_range [of s sep] assms have len: "n + length sep \<le> length s" by simp
    from len have lt: "length ?t = n + (length sep - 1)" by simp
    from ne have pos: "0 < length sep" by simp
    from j have "length sep \<le> length (drop j ?t)" by (rule prefix_length_le)
    then have "length sep \<le> n + (length sep - 1) - j" unfolding length_drop lt .
    with pos have jn: "j < n" by arith
    have "s = ?t @ (last sep # drop (n + length sep) s)"
      using s ne by (metis append.assoc append_butlast_last_id append_Cons append_Nil)
    then have "drop j s = drop j ?t @ (last sep # drop (n + length sep) s)"
      using jn len by (metis drop_append length_append length_take min.absorb2 
           diff_is_0_eq drop0 less_imp_le_nat trans_le_add1 add_leD1)
    with j have "prefix sep (drop j s)" by (metis prefix_prefix)
    with first jn show False by blast
  qed
qed

subsection \<open>What \<^verbatim>\<open>strings.TrimSpace\<close> removes\<close>

lemma no_empty_spaceRune: "[] \<notin> set spaceRunes"
  by (simp add: spaceRunes_def)

lemma leadingSpace_zero_iff:
  "[] \<notin> set rs \<Longrightarrow> leadingSpace rs s = 0 \<longleftrightarrow> (\<forall>r\<in>set rs. \<not> prefix r s)"
  by (induction rs) auto

lemma trailingSpace_zero_iff:
  "[] \<notin> set rs \<Longrightarrow> trailingSpace rs s = 0 \<longleftrightarrow> (\<forall>r\<in>set rs. \<not> suffix r s)"
  by (induction rs) auto

lemma leadingSpace_pos:
  "leadingSpace rs s \<noteq> 0 \<Longrightarrow> \<exists>r\<in>set rs. s = r @ drop (leadingSpace rs s) s"
  by (induction rs) (auto simp: prefix_def)

lemma trailingSpace_pos:
  "trailingSpace rs s \<noteq> 0 \<Longrightarrow> \<exists>r\<in>set rs. s = take (length s - trailingSpace rs s) s @ r"
  by (induction rs) (auto simp: suffix_def)

lemma TrimLeft_decomp:
  "\<exists>rs. set rs \<subseteq> set spaceRunes \<and> s = concat rs @ TrimLeft s"
proof (induction s rule: TrimLeft.induct)
  case (1 s)
  let ?w = "leadingSpace spaceRunes s"
  show ?case
  proof (cases "?w = 0")
    case True
    then have "TrimLeft s = s" by (simp add: TrimLeft.simps [of s])
    then have "set [] \<subseteq> set spaceRunes \<and> s = concat [] @ TrimLeft s" by simp
    then show ?thesis by blast
  next
    case False
    then obtain r where r: "r \<in> set spaceRunes" "s = r @ drop ?w s"
      using leadingSpace_pos by blast
    from False have tl: "TrimLeft s = TrimLeft (drop ?w s)"
      by (simp add: TrimLeft.simps [of s])
    from 1 [OF refl False] obtain rs
      where rs: "set rs \<subseteq> set spaceRunes" "drop ?w s = concat rs @ TrimLeft (drop ?w s)"
      by blast
    from r(2) rs(2) tl have "s = concat (r # rs) @ TrimLeft s" by simp
    moreover from r(1) rs(1) have "set (r # rs) \<subseteq> set spaceRunes" by simp
    ultimately show ?thesis by blast
  qed
qed

lemma TrimLeft_no_leading: "leadingSpace spaceRunes (TrimLeft s) = 0"
proof (induction s rule: TrimLeft.induct)
  case (1 s)
  show ?case
  proof (cases "leadingSpace spaceRunes s = 0")
    case True
    then show ?thesis by (simp add: TrimLeft.simps [of s])
  next
    case False
    with 1 [OF refl False] show ?thesis by (simp add: TrimLeft.simps [of s])
  qed
qed

lemma TrimRight_decomp:
  "\<exists>rs. set rs \<subseteq> set spaceRunes \<and> s = TrimRight s @ concat rs"
proof (induction s rule: TrimRight.induct)
  case (1 s)
  let ?w = "trailingSpace spaceRunes s"
  let ?t = "take (length s - ?w) s"
  show ?case
  proof (cases "?w = 0")
    case True
    then have "TrimRight s = s" by (simp add: TrimRight.simps [of s])
    then have "set [] \<subseteq> set spaceRunes \<and> s = TrimRight s @ concat []" by simp
    then show ?thesis by blast
  next
    case False
    then obtain r where r: "r \<in> set spaceRunes" "s = ?t @ r"
      using trailingSpace_pos by blast
    from False have tr: "TrimRight s = TrimRight ?t"
      by (simp add: TrimRight.simps [of s])
    from 1 [OF refl False] obtain rs
      where rs: "set rs \<subseteq> set spaceRunes" "?t = TrimRight ?t @ concat rs"
      by blast
    have "s = (TrimRight ?t @ concat rs) @ r"
      using r(2) rs(2) by metis
    with tr have "s = TrimRight s @ concat (rs @ [r])" by simp
    moreover from r(1) rs(1) have "set (rs @ [r]) \<subseteq> set spaceRunes" by simp
    ultimately show ?thesis by blast
  qed
qed

lemma TrimRight_no_trailing: "trailingSpace spaceRunes (TrimRight s) = 0"
proof (induction s rule: TrimRight.induct)
  case (1 s)
  show ?case
  proof (cases "trailingSpace spaceRunes s = 0")
    case True
    then show ?thesis by (simp add: TrimRight.simps [of s])
  next
    case False
    with 1 [OF refl False] show ?thesis by (simp add: TrimRight.simps [of s])
  qed
qed

lemma TrimSpace_surrounding:
  "\<exists>ls rs. set ls \<subseteq> set spaceRunes \<and> set rs \<subseteq> set spaceRunes \<and>
     s = concat ls @ TrimSpace s @ concat rs"
proof -
  obtain ls where ls: "set ls \<subseteq> set spaceRunes" "s = concat ls @ TrimLeft s"
    using TrimLeft_decomp by blast
  obtain rs where rs: "set rs \<subseteq> set spaceRunes" "TrimLeft s = TrimRight (TrimLeft s) @ concat rs"
    using TrimRight_decomp by blast
  from ls(2) rs(2) have "s = concat ls @ TrimSpace s @ concat rs"
    by (simp add: TrimSpace_def)
  with ls(1) rs(1) show ?thesis by blast
qed

lemma TrimSpace_trimmed:
  assumes "r \<in> set spaceRunes"
  shows "\<not> prefix r (TrimSpace s)" and "\<not> suffix r (TrimSpace s)"
proof -
  from assms no_empty_spaceRune have ne: "r \<noteq> []" by auto
  show "\<not> suffix r (TrimSpace s)"
    using TrimRight_no_trailing [of "TrimLeft s"] assms
    by (simp add: TrimSpace_def trailingSpace_zero_iff [OF no_empty_spaceRune])
  show "\<not> prefix r (TrimSpace s)"
  proof
    assume p: "prefix r (TrimSpace s)"
    obtain rs where "TrimLeft s = TrimRight (TrimLeft s) @ concat rs"
      using TrimRight_decomp by blast
    then have "prefix (TrimSpace s) (TrimLeft s)"
      by (metis TrimSpace_def prefixI)
    with p have "prefix r (TrimLeft s)" by (rule prefix_order.trans)
    with TrimLeft_no_leading [of s] assms show False
      by (simp add: leadingSpace_zero_iff [OF no_empty_spaceRune])
  qed
qed

section \<open>Metadata extraction\<close>

text \<open>
  C1. An input that does not begin with the three bytes \<^verbatim>\<open>---\<close>, or in which no
  \<^verbatim>\<open>---\<close> occurs after the first three bytes, makes \<open>readMeta\<close> return the
  \<^verbatim>\<open>nil\<close> map, which has no entry, and the whole input as the body; no slice
  expression panics.
\<close>

theorem readMeta_no_preamble:
  assumes "\<not> prefix ''---'' b \<or> \<not> sublist ''---'' (drop 3 b)"
  shows "readMeta b = Some (None, b) \<and> entries (fst (the (readMeta b))) = Map.empty"
proof -
  have "readMeta b = Some (None, b)"
  proof (cases "prefix ''---'' b")
    case False
    then have "length b < 3 \<or> slice b 0 3 \<noteq> Some ''---''"
      using slice_take [of 3 b] by (auto simp: prefix_delim)
    then show ?thesis by (simp add: readMeta_def Let_def)
  next
    case True
    with assms have "Index (drop 3 b) ''---'' = - 1" by (simp add: Index_none_iff)
    moreover from True have "3 \<le> length b" by (simp add: prefix_delim)
    then have "slice_from b 3 = Some (drop 3 b)" using slice_from_drop [of 3 b] by simp
    ultimately show ?thesis by (simp add: readMeta_def Let_def)
  qed
  then show ?thesis by (simp add: entries_def)
qed

theorem readMeta_no_preamble_witness:
  "\<not> prefix ''---'' ''# Title'' \<and> readMeta ''# Title'' = Some (None, ''# Title'')
   \<and> prefix ''---'' ''---a: b--'' \<and> \<not> sublist ''---'' (drop 3 ''---a: b--'')
   \<and> readMeta ''---a: b--'' = Some (None, ''---a: b--'')"
proof -
  have h1: "\<not> prefix ''---'' ''# Title''" by simp
  have h2: "\<not> sublist ''---'' (drop 3 ''---a: b--'')"
    by (simp add: Index_none_iff [symmetric])
  from h1 h2 show ?thesis
    using readMeta_no_preamble [of "''# Title''"] readMeta_no_preamble [of "''---a: b--''"]
    by simp
qed

text \<open>
  C2. An input that begins with \<^verbatim>\<open>---\<close> and has a second \<^verbatim>\<open>---\<close> after the
  first three bytes is the delimiter, the preamble, the delimiter at its first
  occurrence, and the body, which starts three bytes past the start of that occurrence.
  The metadata are those of the specification: the lines of the preamble, each cut at
  its first colon, key and value trimmed (\<open>TrimSpace_surrounding\<close> and
  \<open>TrimSpace_trimmed\<close> say what trimming removes), lines without a colon skipped,
  later keys overwriting earlier ones. No slice expression panics.
\<close>

theorem readMeta_preamble:
  assumes "prefix ''---'' b" and "sublist ''---'' (drop 3 b)"
  shows "\<exists>pre body. b = ''---'' @ pre @ ''---'' @ body \<and> \<not> sublist ''---'' (pre @ ''--'')
           \<and> readMeta b = Some (Some (spec_meta (spec_split CHR ''\<newline>'' pre)), body)"
proof -
  let ?rest = "drop 3 b"
  from assms(1) have len: "3 \<le> length b" and t3: "take 3 b = ''---''"
    by (simp_all add: prefix_delim)
  from assms(2) have "Index ?rest ''---'' \<noteq> - 1" by (simp add: Index_none_iff)
  with Index_nonneg [of ?rest "''---''"] obtain n where n: "Index ?rest ''---'' = int n"
    using zero_le_imp_eq_int by blast
  define pre where "pre = take n ?rest"
  define body where "body = drop (n + 3) ?rest"
  from Index_split [OF n] have rest: "?rest = pre @ ''---'' @ body"
    and nosub: "\<not> sublist ''---'' (pre @ ''--'')"
    by (simp_all add: pre_def body_def)
  have b: "b = ''---'' @ pre @ ''---'' @ body"
    using t3 rest by (metis append_take_drop_id)
  from Index_range [of ?rest "''---''"] n have n6: "n + 6 \<le> length b" by simp
  have s1: "slice b 0 3 = Some ''---''" using slice_take [of 3 b] len t3 by simp
  have s2: "slice_from b 3 = Some ?rest" using slice_from_drop [of 3 b] len by simp
  have s3: "slice b 3 (int n + 3) = Some pre"
    using n6 by (simp add: slice_def pre_def nat_add_distrib)
  have s4: "slice_from b (int n + 6) = Some body"
    using slice_from_drop [of "n + 6" b] n6 by (simp add: body_def add.commute)
  have "readMeta b = Some (Some (fold readMeta_line (Split pre ''\<newline>'') Map.empty), body)"
    using len s1 s2 s3 s4 n by (simp add: readMeta_def Let_def)
  then have "readMeta b = Some (Some (spec_meta (spec_split CHR ''\<newline>'' pre)), body)"
    by (simp add: fold_readMeta_line Split_single)
  with b nosub show ?thesis by blast
qed


theorem readMeta_preamble_witness:
  "prefix ''---'' sample_doc \<and> sublist ''---'' (drop 3 sample_doc)
   \<and> (\<exists>pre body. sample_doc = ''---'' @ pre @ ''---'' @ body
         \<and> \<not> sublist ''---'' (pre @ ''--'')
         \<and> readMeta sample_doc = Some (Some (spec_meta (spec_split CHR ''\<newline>'' pre)), body))
   \<and> map_option (\<lambda>(m, body). (index_map m ''title'', index_map m ''date'', index_map m ''no colon'', body))
         (readMeta sample_doc)
       = Some (''Hi there'', ''2025: x'', [], ''\<newline>body'')"
proof -
  have h1: "prefix ''---'' sample_doc" by (simp add: sample_doc_def)
  have "Index (drop 3 sample_doc) ''---'' \<noteq> - 1" by (simp add: sample_doc_def)
  then have h2: "sublist ''---'' (drop 3 sample_doc)" by (simp add: Index_none_iff)
  have run: "map_option (\<lambda>(m, body). (index_map m ''title'', index_map m ''date'', index_map m ''no colon'', body))
         (readMeta sample_doc)
       = Some (''Hi there'', ''2025: x'', [], ''\<newline>body'')"
    by code_simp
  from readMeta_preamble [OF h1 h2] h1 h2 run show ?thesis by blast
qed

section \<open>The order of the pages\<close>

lemma Compare_pos: "Compare a b > 0 \<longleftrightarrow> b < a"
  by (auto simp: Compare_def)

lemma Less_iff: "Less p i j \<longleftrightarrow> sortKey (p ! j) < sortKey (p ! i)"
  by (simp add: Less_def Compare_pos)

lemma length_place [simp]: "length (place x r) = Suc (length r)"
  by (induction r) auto

lemma split_two:
  assumes "Suc j < length p"
  shows "p = take j p @ p ! j # p ! Suc j # drop (Suc (Suc j)) p"
proof -
  from assms have "j < length p" by simp
  then have "p = take j p @ p ! j # drop (Suc j) p" by (rule id_take_nth_drop)
  also from assms have "drop (Suc j) p = p ! Suc j # drop (Suc (Suc j)) p"
    by (simp add: Cons_nth_drop_Suc)
  finally show ?thesis .
qed

lemma insertionSort_inner_place:
  "j < length p \<Longrightarrow>
   insertionSort_inner p j = rev (place (p ! j) (rev (take j p))) @ drop (Suc j) p"
proof (induction j arbitrary: p)
  case 0
  then show ?case by (cases p) auto
next
  case (Suc j)
  let ?x = "p ! Suc j" and ?y = "p ! j"
  from Suc.prems have j: "j < length p" by simp
  have tk: "rev (take (Suc j) p) = ?y # rev (take j p)"
    using j by (simp add: take_Suc_conv_app_nth)
  show ?case
  proof (cases "Less p (Suc j) j")
    case False
    then have "\<not> sortKey ?y < sortKey ?x" by (simp add: Less_iff)
    with False tk split_two [OF Suc.prems] show ?thesis
      by simp
  next
    case True
    then have lt: "sortKey ?y < sortKey ?x" by (simp add: Less_iff)
    let ?q = "Swap p (Suc j) j"
    have len: "length ?q = length p" by (simp add: Swap_def)
    have qj: "?q ! j = ?x" using Suc.prems by (simp add: Swap_def)
    have qt: "take j ?q = take j p" by (simp add: Swap_def)
    have qd: "drop (Suc j) ?q = ?y # drop (Suc (Suc j)) p"
      using Suc.prems by (simp add: Swap_def drop_update_swap Cons_nth_drop_Suc [symmetric] upd_conv_take_nth_drop)
    from Suc.IH [of ?q] j len
    have "insertionSort_inner ?q j = rev (place (?q ! j) (rev (take j ?q))) @ drop (Suc j) ?q"
      by simp
    with True lt tk qj qt qd show ?thesis by simp
  qed
qed


lemma length_insertionSort_inner: "j < length p \<Longrightarrow> length (insertionSort_inner p j) = length p"
  by (simp add: insertionSort_inner_place)

lemma insertionSort_outer_place:
  "i + n = length p \<Longrightarrow>
   insertionSort_outer p i n = rev (fold place (drop i p) (rev (take i p)))"
proof (induction n arbitrary: p i)
  case 0
  then show ?case by simp
next
  case (Suc n)
  then have i: "i < length p" by simp
  let ?q = "insertionSort_inner p i"
  have q: "?q = rev (place (p ! i) (rev (take i p))) @ drop (Suc i) p"
    using i by (rule insertionSort_inner_place)
  have len: "length (rev (place (p ! i) (rev (take i p)))) = Suc i"
    using i by simp
  have tk: "take (Suc i) ?q = rev (place (p ! i) (rev (take i p)))"
    unfolding q using len by simp
  have dr: "drop (Suc i) ?q = drop (Suc i) p"
    unfolding q using len by simp
  from Suc.prems i have "Suc i + n = length ?q"
    by (simp add: length_insertionSort_inner)
  from Suc.IH [OF this] tk dr
  have "insertionSort_outer ?q (Suc i) n = rev (fold place (drop (Suc i) p) (place (p ! i) (rev (take i p))))"
    by simp
  moreover have "drop i p = p ! i # drop (Suc i) p"
    using i by (simp add: Cons_nth_drop_Suc)
  ultimately show ?case by simp
qed

lemma Stable_place: "Stable p = rev (fold place p [])"
proof (cases p)
  case Nil
  then show ?thesis by (simp add: Stable_def Len_def)
next
  case (Cons x xs)
  then have "1 + (Len p - 1) = length p" by (simp add: Len_def)
  from insertionSort_outer_place [OF this] Cons show ?thesis
    by (simp add: Stable_def)
qed


lemma set_place: "set (place x r) = insert x (set r)"
  by (induction r) auto


lemma sorted_place:
  "sorted_wrt (\<lambda>a b. sortKey a \<le> sortKey b) r \<Longrightarrow>
   sorted_wrt (\<lambda>a b. sortKey a \<le> sortKey b) (place x r)"
proof (induction r)
  case Nil
  then show ?case by simp
next
  case (Cons y r)
  show ?case
  proof (cases "sortKey y < sortKey x")
    case True
    with Cons show ?thesis by (auto simp: set_place)
  next
    case False
    then have "sortKey x \<le> sortKey y" by simp
    with Cons.prems False show ?thesis by auto
  qed
qed

lemma sorted_fold_place:
  "sorted_wrt (\<lambda>a b. sortKey a \<le> sortKey b) r \<Longrightarrow>
   sorted_wrt (\<lambda>a b. sortKey a \<le> sortKey b) (fold place xs r)"
  by (induction xs arbitrary: r) (auto simp: sorted_place)

lemma filter_place:
  "filter (\<lambda>p. sortKey p = k) (place x r) =
     (if sortKey x = k then x # filter (\<lambda>p. sortKey p = k) r else filter (\<lambda>p. sortKey p = k) r)"
  by (induction r) auto

lemma filter_fold_place:
  "filter (\<lambda>p. sortKey p = k) (fold place xs r) =
     rev (filter (\<lambda>p. sortKey p = k) xs) @ filter (\<lambda>p. sortKey p = k) r"
  by (induction xs arbitrary: r) (auto simp: filter_place)

lemma sorted_wrt_rev_desc:
  "sorted_wrt (\<lambda>a b. sortKey a \<le> sortKey b) r \<Longrightarrow>
   sorted_wrt (\<lambda>a b. sortKey b \<le> sortKey a) (rev r)"
  by (simp add: sorted_wrt_rev)


lemma Stable_sorted: "sorted_wrt (\<lambda>a b. sortKey b \<le> sortKey a) (Stable p)"
proof -
  have "sorted_wrt (\<lambda>a b. sortKey a \<le> sortKey b) (fold place p [])"
    by (rule sorted_fold_place) simp
  then show ?thesis unfolding Stable_place by (rule sorted_wrt_rev_desc)
qed

lemma Stable_filter:
  "filter (\<lambda>q. sortKey q = k) (Stable p) = filter (\<lambda>q. sortKey q = k) p"
  by (simp add: Stable_place filter_fold_place rev_filter [symmetric])

lemma desc_stable_unique:
  assumes "sorted_wrt (\<lambda>a b. sortKey b \<le> sortKey a) ys"
    and "sorted_wrt (\<lambda>a b. sortKey b \<le> sortKey a) zs"
    and "\<And>k. filter (\<lambda>q. sortKey q = k) ys = filter (\<lambda>q. sortKey q = k) zs"
  shows "ys = zs"
  using assms
proof (induction ys arbitrary: zs)
  case Nil
  show ?case
  proof (cases zs)
    case Nil
    then show ?thesis by simp
  next
    case (Cons z zs')
    with Nil.prems(3) [of "sortKey z"] show ?thesis by simp
  qed
next
  case (Cons y ys)
  from Cons.prems(3) [of "sortKey y"]
  have fy: "y # filter (\<lambda>q. sortKey q = sortKey y) ys = filter (\<lambda>q. sortKey q = sortKey y) zs"
    by simp
  have "y \<in> set (y # filter (\<lambda>q. sortKey q = sortKey y) ys)" by simp
  then have "y \<in> set (filter (\<lambda>q. sortKey q = sortKey y) zs)" unfolding fy .
  then have yz: "y \<in> set zs" by simp
  then obtain z zs' where zs: "zs = z # zs'" by (cases zs) auto
  from Cons.prems(3) [of "sortKey z"] zs
  have fz: "filter (\<lambda>q. sortKey q = sortKey z) (y # ys) = z # filter (\<lambda>q. sortKey q = sortKey z) zs'"
    by simp
  have "z \<in> set (filter (\<lambda>q. sortKey q = sortKey z) (y # ys))" unfolding fz by simp
  then have zy: "z \<in> set (y # ys)" by (auto split: if_splits)
  from yz zs Cons.prems(2) have "sortKey y \<le> sortKey z" by auto
  moreover from zy Cons.prems(1) have "sortKey z \<le> sortKey y" by auto
  ultimately have keq: "sortKey z = sortKey y" by simp
  with fy zs have yeq: "y = z" by simp
  have "ys = zs'"
  proof (rule Cons.IH)
    show "sorted_wrt (\<lambda>a b. sortKey b \<le> sortKey a) ys" using Cons.prems(1) by simp
    show "sorted_wrt (\<lambda>a b. sortKey b \<le> sortKey a) zs'" using Cons.prems(2) zs by simp
    show "filter (\<lambda>q. sortKey q = k) ys = filter (\<lambda>q. sortKey q = k) zs'" for k
      using Cons.prems(3) [of k] zs yeq by (simp split: if_splits)
  qed
  with yeq zs show ?case by simp
qed

lemma Stable_unique:
  assumes "sorted_wrt (\<lambda>a b. sortKey b \<le> sortKey a) ys"
    and "\<And>k. filter (\<lambda>q. sortKey q = k) ys = filter (\<lambda>q. sortKey q = k) p"
  shows "ys = Stable p"
  using assms(1) Stable_sorted
  by (rule desc_stable_unique) (simp add: assms(2) Stable_filter)






section \<open>The URL of a page\<close>

lemma HasSuffix_iff: "HasSuffix s suf \<longleftrightarrow> suffix suf s"
proof
  assume "HasSuffix s suf"
  then have "drop (length s - length suf) s = suf" by (simp add: HasSuffix_def)
  then have "take (length s - length suf) s @ suf = s"
    using append_take_drop_id [of "length s - length suf" s] by simp
  then have "s = take (length s - length suf) s @ suf" by simp
  then show "suffix suf s" by (rule suffixI)
next
  assume "suffix suf s"
  then obtain a where "s = a @ suf" by (auto simp: suffix_def)
  then show "HasSuffix s suf" by (simp add: HasSuffix_def)
qed

lemma TrimSuffix_append: "TrimSuffix (a @ suf) suf = a"
  by (simp add: TrimSuffix_def HasSuffix_def)

lemma TrimSuffix_other: "\<not> suffix suf s \<Longrightarrow> TrimSuffix s suf = s"
  by (simp add: TrimSuffix_def HasSuffix_iff)

lemma Ext_loop_suffix: "\<exists>n. Ext_loop r acc = [] \<or> Ext_loop r acc = rev (take n r) @ acc"
proof (induction r arbitrary: acc)
  case Nil
  then show ?case by simp
next
  case (Cons c r)
  show ?case
  proof (cases "c = CHR ''/'' \<or> c = CHR ''.''")
    case True
    then have "Ext_loop (c # r) acc = [] \<or> Ext_loop (c # r) acc = rev (take 1 (c # r)) @ acc"
      by auto
    then show ?thesis by blast
  next
    case False
    from Cons [of "c # acc"] obtain n
      where "Ext_loop r (c # acc) = [] \<or> Ext_loop r (c # acc) = rev (take n r) @ c # acc"
      by blast
    then have "Ext_loop (c # r) acc = [] \<or> Ext_loop (c # r) acc = rev (take (Suc n) (c # r)) @ acc"
      using False by simp
    then show ?thesis by blast
  qed
qed

lemma Ext_suffix: "suffix (Ext path) path"
proof -
  obtain n where "Ext path = [] \<or> Ext path = rev (take n (rev path))"
    using Ext_loop_suffix [of "rev path" "[]"] by (auto simp: Ext_def)
  then show ?thesis
  proof
    assume "Ext path = []"
    then show ?thesis by simp
  next
    assume "Ext path = rev (take n (rev path))"
    then have "Ext path = drop (length path - n) path" by (simp add: take_rev)
    then show ?thesis by (simp add: suffix_drop)
  qed
qed

lemma Ext_md: "Ext (stem @ ''.md'') = ''.md''"
  by (simp add: Ext_def)

lemma readPage_url_index: "readPage_url (pre @ ''index.md'') = pre"
proof -
  have e: "Ext (pre @ ''index.md'') = ''.md''"
    using Ext_md [of "pre @ ''index''"] by simp
  have t1: "TrimSuffix (pre @ ''index.md'') ''.md'' = pre @ ''index''"
    using TrimSuffix_append [of "pre @ ''index''" "''.md''"] by simp
  have t2: "TrimSuffix (pre @ ''index.html'') ''index.html'' = pre"
    by (rule TrimSuffix_append)
  show ?thesis by (simp add: readPage_url_def Let_def e t1 t2)
qed

text \<open>
  C4. The relative path is a stem and its extension; the URL is the stem with
  \<^verbatim>\<open>.html\<close>, less a final \<^verbatim>\<open>index.html\<close> when it ends with one, and nothing else
  is removed. So \<^verbatim>\<open>index.md\<close> has the empty URL at the root and the URL of its
  directory below it. \<open>readPage\<close> stores this URL of the relative path.
\<close>

theorem readPage_url_derivation:
  "(\<exists>stem. relpath = stem @ Ext relpath
      \<and> (if suffix ''index.html'' (stem @ ''.html'')
         then stem @ ''.html'' = readPage_url relpath @ ''index.html''
         else readPage_url relpath = stem @ ''.html''))
   \<and> readPage_url ''index.md'' = []
   \<and> readPage_url (dir @ ''/index.md'') = dir @ ''/''
   \<and> (readPage env abspath siteDir = Inr page \<longrightarrow>
        Rel env siteDir abspath = Inr (RelPath page) \<and> Url page = readPage_url (RelPath page))"
proof -
  from Ext_suffix [of relpath] obtain stem where stem: "relpath = stem @ Ext relpath"
    by (auto simp: suffix_def)
  have "TrimSuffix (stem @ Ext relpath) (Ext relpath) = stem" by (rule TrimSuffix_append)
  with stem have ts: "TrimSuffix relpath (Ext relpath) = stem" by simp
  have "if suffix ''index.html'' (stem @ ''.html'')
         then stem @ ''.html'' = readPage_url relpath @ ''index.html''
         else readPage_url relpath = stem @ ''.html''"
  proof (cases "suffix ''index.html'' (stem @ ''.html'')")
    case True
    then obtain a where a: "stem @ ''.html'' = a @ ''index.html''" by (auto simp: suffix_def)
    have "TrimSuffix (a @ ''index.html'') ''index.html'' = a" by (rule TrimSuffix_append)
    with a have "readPage_url relpath = a"
      by (simp add: readPage_url_def Let_def ts)
    with a True show ?thesis by simp
  next
    case False
    then show ?thesis by (simp add: readPage_url_def Let_def ts TrimSuffix_other)
  qed
  with stem have 1: "\<exists>stem. relpath = stem @ Ext relpath
      \<and> (if suffix ''index.html'' (stem @ ''.html'')
         then stem @ ''.html'' = readPage_url relpath @ ''index.html''
         else readPage_url relpath = stem @ ''.html'')" by blast
  have 2: "readPage_url ''index.md'' = []" using readPage_url_index [of "[]"] by simp
  have 3: "readPage_url (dir @ ''/index.md'') = dir @ ''/''"
    using readPage_url_index [of "dir @ ''/''"] by simp
  have 4: "readPage env abspath siteDir = Inr page \<longrightarrow>
        Rel env siteDir abspath = Inr (RelPath page) \<and> Url page = readPage_url (RelPath page)"
    by (auto simp: readPage_def split: sum.splits option.splits)
  from 1 2 3 4 show ?thesis by blast
qed

theorem readPage_url_derivation_witness:
  "\<exists>page. readPage sample_env ''site/index.md'' ''site'' = Inr page
      \<and> RelPath page = ''index.md'' \<and> Url page = []"
proof -
  have "\<not> isl (readPage sample_env ''site/index.md'' ''site'')" by code_simp
  then obtain page where page: "readPage sample_env ''site/index.md'' ''site'' = Inr page"
    by (cases "readPage sample_env ''site/index.md'' ''site''") auto
  from readPage_url_derivation [of "''index.md''" "[]" sample_env "''site/index.md''" "''site''" page] page
  have rel: "Rel sample_env ''site'' ''site/index.md'' = Inr (RelPath page)"
    and url: "Url page = readPage_url (RelPath page)"
    and root: "readPage_url ''index.md'' = []"
    by blast+
  have "Rel sample_env ''site'' ''site/index.md'' = Inr ''index.md''"
    by (simp add: sample_env_def sample_rel_def)
  with rel have "RelPath page = ''index.md''" by simp
  with url root page show ?thesis by simp
qed

text \<open>
  C10. The strip looks at the end of the derived URL only, so it applies to every file
  whose name ends with \<^verbatim>\<open>index.md\<close>: what stands before \<^verbatim>\<open>index.md\<close>, a directory
  or not, is the URL. \<^verbatim>\<open>myindex.md\<close> gets the URL \<^verbatim>\<open>my\<close>, and
  \<^verbatim>\<open>a.htmlindex.md\<close> gets the URL of \<^verbatim>\<open>a.md\<close>.
\<close>

theorem readPage_url_trailing_index:
  "readPage_url (pre @ ''index.md'') = pre
   \<and> readPage_url ''myindex.md'' = ''my''
   \<and> readPage_url ''a.htmlindex.md'' = ''a.html''
   \<and> readPage_url ''a.md'' = ''a.html''"
proof -
  have "readPage_url ''myindex.md'' = ''my''"
    using readPage_url_index [of "''my''"] by simp
  moreover have "readPage_url ''a.htmlindex.md'' = ''a.html''"
    using readPage_url_index [of "''a.html''"] by simp
  moreover have "readPage_url ''a.md'' = ''a.html''" by code_simp
  ultimately show ?thesis by (simp add: readPage_url_index)
qed

section \<open>\<^verbatim>\<open>dateformat\<close>\<close>

lemma dom_dateFormats: "dom dateFormats = {''rfc822'', ''yyyy-mm-dd'', ''shortdate''}"
  by (auto simp: dateFormats_def)

text \<open>
  C5. \<open>dateformat\<close> returns an error exactly when the source name or the destination
  name is not one of the three names of the registry: the error names the source when
  the source is unknown, the destination when only the destination is. With both names
  known it returns the formatted time whatever the parse reported; when the parse
  fails and hands back the zero time with its error, the zero time is formatted and the
  error is dropped.
\<close>

theorem dateformat_errors:
  "(isl (dateformat Parse Format src dst input) \<longleftrightarrow> src \<notin> dom dateFormats \<or> dst \<notin> dom dateFormats)
   \<and> (src \<notin> dom dateFormats \<longrightarrow>
        dateformat Parse Format src dst input = Inl (''unknown date format: '' @ src))
   \<and> (src \<in> dom dateFormats \<longrightarrow> dst \<notin> dom dateFormats \<longrightarrow>
        dateformat Parse Format src dst input = Inl (''unknown date format: '' @ dst))
   \<and> (dateFormats src = Some srcfmt \<longrightarrow> dateFormats dst = Some dstfmt \<longrightarrow>
        dateformat Parse Format src dst input = Inr (Format (fst (Parse srcfmt input)) dstfmt))
   \<and> (dateFormats src = Some srcfmt \<longrightarrow> dateFormats dst = Some dstfmt \<longrightarrow>
        Parse srcfmt input = (zero, Some e) \<longrightarrow>
        dateformat Parse Format src dst input = Inr (Format zero dstfmt))
   \<and> dom dateFormats = {''rfc822'', ''yyyy-mm-dd'', ''shortdate''}"
proof -
  have "dateformat Parse Format src dst input =
      (case dateFormats src of
         None \<Rightarrow> Inl (''unknown date format: '' @ src)
       | Some srcfmt \<Rightarrow>
          (case dateFormats dst of
             None \<Rightarrow> Inl (''unknown date format: '' @ dst)
           | Some dstfmt \<Rightarrow> Inr (Format (fst (Parse srcfmt input)) dstfmt)))"
    by (simp add: dateformat_def Let_def split: option.splits)
  then have "(isl (dateformat Parse Format src dst input) \<longleftrightarrow> src \<notin> dom dateFormats \<or> dst \<notin> dom dateFormats)
   \<and> (src \<notin> dom dateFormats \<longrightarrow>
        dateformat Parse Format src dst input = Inl (''unknown date format: '' @ src))
   \<and> (src \<in> dom dateFormats \<longrightarrow> dst \<notin> dom dateFormats \<longrightarrow>
        dateformat Parse Format src dst input = Inl (''unknown date format: '' @ dst))
   \<and> (dateFormats src = Some srcfmt \<longrightarrow> dateFormats dst = Some dstfmt \<longrightarrow>
        dateformat Parse Format src dst input = Inr (Format (fst (Parse srcfmt input)) dstfmt))
   \<and> (dateFormats src = Some srcfmt \<longrightarrow> dateFormats dst = Some dstfmt \<longrightarrow>
        Parse srcfmt input = (zero, Some e) \<longrightarrow>
        dateformat Parse Format src dst input = Inr (Format zero dstfmt))"
    by (cases "dateFormats src"; cases "dateFormats dst") (auto simp: domIff)
  with dom_dateFormats show ?thesis by blast
qed

theorem dateformat_errors_witness:
  "''nope'' \<notin> dom dateFormats
   \<and> dateformat sample_time_parse sample_time_format ''nope'' ''shortdate'' ''2024-05-01''
       = Inl ''unknown date format: nope''
   \<and> ''rfc822'' \<in> dom dateFormats
   \<and> dateformat sample_time_parse sample_time_format ''rfc822'' ''nope'' ''2024-05-01''
       = Inl ''unknown date format: nope''
   \<and> dateFormats ''yyyy-mm-dd'' = Some ''2006-01-02'' \<and> dateFormats ''shortdate'' = Some ''02 Jan 2006''
   \<and> sample_time_parse ''2006-01-02'' ''yesterday'' = ([], Some ''parsing time yesterday as 2006-01-02'')
   \<and> dateformat sample_time_parse sample_time_format ''yyyy-mm-dd'' ''shortdate'' ''yesterday''
       = Inr ''0001-01-01 as 02 Jan 2006''
   \<and> dateformat sample_time_parse sample_time_format ''yyyy-mm-dd'' ''shortdate'' ''2024-05-01''
       = Inr ''2024-05-01 as 02 Jan 2006''"
proof -
  have h1: "''nope'' \<notin> dom dateFormats" by (simp add: dom_dateFormats)
  have h2: "''rfc822'' \<in> dom dateFormats" by (simp add: dom_dateFormats)
  have h3: "dateFormats ''yyyy-mm-dd'' = Some ''2006-01-02''" by (simp add: dateFormats_def)
  have h4: "dateFormats ''shortdate'' = Some ''02 Jan 2006''" by (simp add: dateFormats_def)
  have h5: "sample_time_parse ''2006-01-02'' ''yesterday'' = ([], Some ''parsing time yesterday as 2006-01-02'')"
    by (simp add: sample_time_parse_def)
  have h6: "fst (sample_time_parse ''2006-01-02'' ''2024-05-01'') = ''2024-05-01''"
    by (simp add: sample_time_parse_def)
  from dateformat_errors [of sample_time_parse sample_time_format "''nope''" "''shortdate''" "''2024-05-01''"] h1
  have r1: "dateformat sample_time_parse sample_time_format ''nope'' ''shortdate'' ''2024-05-01''
       = Inl ''unknown date format: nope''" by simp
  from dateformat_errors [of sample_time_parse sample_time_format "''rfc822''" "''nope''" "''2024-05-01''"] h1 h2
  have r2: "dateformat sample_time_parse sample_time_format ''rfc822'' ''nope'' ''2024-05-01''
       = Inl ''unknown date format: nope''" by simp
  from dateformat_errors [of sample_time_parse sample_time_format "''yyyy-mm-dd''" "''shortdate''"
      "''yesterday''" "''2006-01-02''" "''02 Jan 2006''" "[]" "''parsing time yesterday as 2006-01-02''"] h3 h4 h5
  have r3: "dateformat sample_time_parse sample_time_format ''yyyy-mm-dd'' ''shortdate'' ''yesterday''
       = Inr ''0001-01-01 as 02 Jan 2006''" by (simp add: sample_time_format_def)
  from dateformat_errors [of sample_time_parse sample_time_format "''yyyy-mm-dd''" "''shortdate''"
      "''2024-05-01''" "''2006-01-02''" "''02 Jan 2006''"] h3 h4 h6
  have r4: "dateformat sample_time_parse sample_time_format ''yyyy-mm-dd'' ''shortdate'' ''2024-05-01''
       = Inr ''2024-05-01 as 02 Jan 2006''" by (simp add: sample_time_format_def)
  from h1 h2 h3 h4 h5 r1 r2 r3 r4 show ?thesis by (intro conjI)
qed

section \<open>The layout template\<close>

lemma Index_at:
  assumes "sep \<noteq> []" and "\<not> sublist sep (a @ butlast sep)"
  shows "Index (a @ sep @ b) sep = int (length a)"
proof -
  let ?s = "a @ sep @ b"
  have "sublist sep ?s" by (auto simp: sublist_def)
  then have "Index ?s sep \<noteq> - 1" by (simp add: Index_none_iff)
  with Index_nonneg [of ?s sep] obtain n where n: "Index ?s sep = int n"
    using zero_le_imp_eq_int by blast
  from Index_first [OF n] have p: "prefix sep (drop n ?s)"
    and first: "\<forall>j<n. \<not> prefix sep (drop j ?s)" by auto
  have "prefix sep (drop (length a) ?s)" by simp
  with first have le: "n \<le> length a" by (meson not_le)
  have "\<not> n < length a"
  proof
    assume lt: "n < length a"
    let ?t = "a @ butlast sep"
    have s: "?s = ?t @ (last sep # b)" using assms(1) by simp
    have "length sep \<le> length (drop n ?t)" using lt assms(1) by simp
    moreover have "drop n ?s = drop n ?t @ (last sep # b)"
      unfolding s using lt by simp
    ultimately have "prefix sep (drop n ?t)" using p
      by (metis prefix_length_prefix prefixI)
    then have "sublist sep ?t" by (auto simp: sublist_drop)
    with assms(2) show False by simp
  qed
  with le have "n = length a" by simp
  with n show ?thesis by simp
qed

lemma Count_pos: "sep \<noteq> [] \<Longrightarrow> Index s sep \<noteq> - 1 \<Longrightarrow> 0 < Count s sep"
  by (simp add: Count.simps [of s sep] Let_def)

lemma Replace_first:
  assumes "old \<noteq> []" and "\<not> sublist old (a @ butlast old)"
  shows "Replace (a @ old @ b) old new 1 = a @ new @ b"
proof (cases "old = new")
  case True
  then show ?thesis by (simp add: Replace_def)
next
  case False
  let ?s = "a @ old @ b"
  have i: "Index ?s old = int (length a)" using assms by (rule Index_at)
  then have "0 < Count ?s old" using Count_pos [OF assms(1), of ?s] by simp
  then have "Replace ?s old new 1 = Replace_loop (Suc 0) ?s old new"
    using False by (simp add: Replace_def Let_def)
  with i show ?thesis by (simp add: Let_def)
qed

lemma Replace_absent:
  "\<not> sublist old s \<Longrightarrow> Replace s old new n = s"
proof -
  assume "\<not> sublist old s"
  then have "Index s old = - 1" by (simp add: Index_none_iff)
  then have "Count s old = 0" by (simp add: Count.simps [of s old])
  then show ?thesis by (simp add: Replace_def)
qed

text \<open>
  The fallback goes through \<^verbatim>\<open>template.Must\<close>: should the built-in template, with
  the style sheet in it, not parse, \<open>readTmpl\<close> panics.
\<close>

lemma readTmpl_default_broken:
  "ReadFile env (Join env siteDir ''base.tmpl'') = Inl e \<Longrightarrow>
   ParseTmpl env (Replace (defaultHTML env) ''STYLE_PLACEHOLDER'' (defaultCSS env) 1) = Inl e' \<Longrightarrow>
   readTmpl env siteDir = Inl (Panic e')"
  by (simp add: readTmpl_def readTmpl_default_def Must_def Let_def)

text \<open>
  C6. When \<^verbatim>\<open>base.tmpl\<close> under the site root can be read and parses, \<open>readTmpl\<close>
  returns it. When it cannot be read, or is read and does not parse, \<open>readTmpl\<close>
  returns the parsed built-in template, for a built-in template that parses; the text
  parsed is the built-in one with the style sheet in the place of the first
  \<^verbatim>\<open>STYLE_PLACEHOLDER\<close>. The user template's parse error ends nothing.
\<close>

theorem readTmpl_resolution:
  "(ReadFile env (Join env siteDir ''base.tmpl'') = Inr text \<longrightarrow> ParseTmpl env text = Inr tmpl \<longrightarrow>
      readTmpl env siteDir = Inr tmpl)
   \<and> (ReadFile env (Join env siteDir ''base.tmpl'') = Inl e
        \<or> (ReadFile env (Join env siteDir ''base.tmpl'') = Inr text \<and> ParseTmpl env text = Inl e) \<longrightarrow>
      ParseTmpl env (Replace (defaultHTML env) ''STYLE_PLACEHOLDER'' (defaultCSS env) 1) = Inr dflt \<longrightarrow>
      readTmpl env siteDir = Inr dflt)
   \<and> (defaultHTML env = a @ ''STYLE_PLACEHOLDER'' @ b \<longrightarrow>
      \<not> sublist ''STYLE_PLACEHOLDER'' (a @ ''STYLE_PLACEHOLDE'') \<longrightarrow>
      Replace (defaultHTML env) ''STYLE_PLACEHOLDER'' (defaultCSS env) 1 = a @ defaultCSS env @ b)"
proof -
  have 1: "ReadFile env (Join env siteDir ''base.tmpl'') = Inr text \<longrightarrow> ParseTmpl env text = Inr tmpl \<longrightarrow>
      readTmpl env siteDir = Inr tmpl"
    by (simp add: readTmpl_def Let_def)
  have 2: "ReadFile env (Join env siteDir ''base.tmpl'') = Inl e
        \<or> (ReadFile env (Join env siteDir ''base.tmpl'') = Inr text \<and> ParseTmpl env text = Inl e) \<longrightarrow>
      ParseTmpl env (Replace (defaultHTML env) ''STYLE_PLACEHOLDER'' (defaultCSS env) 1) = Inr dflt \<longrightarrow>
      readTmpl env siteDir = Inr dflt"
    by (auto simp: readTmpl_def readTmpl_default_def Must_def Let_def)
  have 3: "defaultHTML env = a @ ''STYLE_PLACEHOLDER'' @ b \<longrightarrow>
      \<not> sublist ''STYLE_PLACEHOLDER'' (a @ ''STYLE_PLACEHOLDE'') \<longrightarrow>
      Replace (defaultHTML env) ''STYLE_PLACEHOLDER'' (defaultCSS env) 1 = a @ defaultCSS env @ b"
    using Replace_first [of "''STYLE_PLACEHOLDER''" a b "defaultCSS env"] by simp
  from 1 2 3 show ?thesis by (intro conjI)
qed

lemma sample_default_text:
  "Replace (defaultHTML sample_env) ''STYLE_PLACEHOLDER'' (defaultCSS sample_env) 1
     = ''<style>body{}</style>''"
  by code_simp

theorem readTmpl_resolution_witness:
  "ReadFile (with_template good_template sample_env) (Join (with_template good_template sample_env) ''site'' ''base.tmpl'')
     = Inr good_template
   \<and> ParseTmpl (with_template good_template sample_env) good_template = Inr good_template
   \<and> readTmpl (with_template good_template sample_env) ''site'' = Inr good_template
   \<and> ReadFile (with_template bad_template sample_env) (Join (with_template bad_template sample_env) ''site'' ''base.tmpl'')
     = Inr bad_template
   \<and> ParseTmpl (with_template bad_template sample_env) bad_template = Inl ''template: base:1: unclosed action''
   \<and> readTmpl (with_template bad_template sample_env) ''site'' = Inr ''<style>body{}</style>''
   \<and> ReadFile sample_env (Join sample_env ''site'' ''base.tmpl'')
     = Inl ''open site/base.tmpl: no such file or directory''
   \<and> readTmpl sample_env ''site'' = Inr ''<style>body{}</style>''
   \<and> defaultHTML sample_env = ''<style>'' @ ''STYLE_PLACEHOLDER'' @ ''</style>''
   \<and> \<not> sublist ''STYLE_PLACEHOLDER'' (''<style>'' @ ''STYLE_PLACEHOLDE'')
   \<and> Replace (defaultHTML sample_env) ''STYLE_PLACEHOLDER'' (defaultCSS sample_env) 1
     = ''<style>'' @ defaultCSS sample_env @ ''</style>''"
proof -
  let ?g = "with_template good_template sample_env"
  let ?b = "with_template bad_template sample_env"
  have g1: "ReadFile ?g (Join ?g ''site'' ''base.tmpl'') = Inr good_template"
    by (simp add: with_template_def sample_env_def)
  have g2: "ParseTmpl ?g good_template = Inr good_template"
    by (simp add: with_template_def sample_env_def sample_parse_def good_template_def)
  have b1: "ReadFile ?b (Join ?b ''site'' ''base.tmpl'') = Inr bad_template"
    by (simp add: with_template_def sample_env_def)
  have b2: "ParseTmpl ?b bad_template = Inl ''template: base:1: unclosed action''"
    by (simp add: with_template_def sample_env_def sample_parse_def bad_template_def)
  have s1: "ReadFile sample_env (Join sample_env ''site'' ''base.tmpl'')
      = Inl ''open site/base.tmpl: no such file or directory''"
    by (simp add: sample_env_def sample_read_def)
  have d0: "ParseTmpl sample_env ''<style>body{}</style>'' = Inr ''<style>body{}</style>''"
    by (simp add: sample_env_def sample_parse_def)
  have db: "ParseTmpl ?b (Replace (defaultHTML ?b) ''STYLE_PLACEHOLDER'' (defaultCSS ?b) 1)
      = Inr ''<style>body{}</style>''"
    using d0 sample_default_text by (simp add: with_template_def)
  have ds: "ParseTmpl sample_env (Replace (defaultHTML sample_env) ''STYLE_PLACEHOLDER'' (defaultCSS sample_env) 1)
      = Inr ''<style>body{}</style>''"
    using d0 sample_default_text by simp
  have p1: "defaultHTML sample_env = ''<style>'' @ ''STYLE_PLACEHOLDER'' @ ''</style>''"
    by (simp add: sample_env_def)
  have p2: "\<not> sublist ''STYLE_PLACEHOLDER'' (''<style>'' @ ''STYLE_PLACEHOLDE'')"
    by (simp add: Index_none_iff [symmetric])
  from readTmpl_resolution [of ?g "''site''" good_template good_template] g1 g2
  have r1: "readTmpl ?g ''site'' = Inr good_template" by blast
  from readTmpl_resolution [of ?b "''site''" bad_template _ "''template: base:1: unclosed action''"
      "''<style>body{}</style>''"] b1 b2 db
  have r2: "readTmpl ?b ''site'' = Inr ''<style>body{}</style>''" by blast
  from readTmpl_resolution [of sample_env "''site''" _ _ "''open site/base.tmpl: no such file or directory''"
      "''<style>body{}</style>''"] s1 ds
  have r3: "readTmpl sample_env ''site'' = Inr ''<style>body{}</style>''" by blast
  from readTmpl_resolution [of sample_env _ _ _ _ _ "''<style>''" "''</style>''"] p1 p2
  have r4: "Replace (defaultHTML sample_env) ''STYLE_PLACEHOLDER'' (defaultCSS sample_env) 1
     = ''<style>'' @ defaultCSS sample_env @ ''</style>''" by blast
  from g1 g2 r1 b1 b2 r2 s1 r3 p1 p2 r4 show ?thesis by (intro conjI)
qed

section \<open>Discovery\<close>

lemma walk_pages_append:
  "walk_pages env siteDir (c1 @ c2) pages =
     (case walk_pages env siteDir c1 pages of
        Inl a \<Rightarrow> Inl a
      | Inr ps \<Rightarrow> walk_pages env siteDir c2 ps)"
proof (induction c1 arbitrary: pages)
  case Nil
  then show ?case by simp
next
  case (Cons c c1)
  obtain path err where c: "c = (path, err)" by (cases c)
  with Cons show ?case by (simp split: sum.splits)
qed

lemma walk_pages_error_unread:
  "walk_pages env siteDir calls pages =
     walk_pages env siteDir (map (\<lambda>call. (fst call, None)) calls) pages"
proof (induction calls arbitrary: pages)
  case Nil
  then show ?case by simp
next
  case (Cons c calls)
  obtain path err where c: "c = (path, err)" by (cases c)
  with Cons show ?case by (simp split: sum.splits)
qed

text \<open>
  C9, as the code has it. A source file with the extension \<^verbatim>\<open>.md\<close> that cannot be
  read ends the discovery with \<^verbatim>\<open>log.Fatal\<close>, and \<open>main\<close> ends there with it, the
  line logged. An error that the walk reports is never read: the discovery does what it
  does for the same calls without their errors, and a path of another extension
  reported with an error is passed over like any other.
\<close>

theorem walk_pages_failures:
  "(walk_pages env siteDir before pages = Inr ps \<longrightarrow> Ext path = ''.md'' \<longrightarrow> ReadFile env path = Inl e \<longrightarrow>
      walk_pages env siteDir (before @ (path, err) # rest) pages = Inl (Fatal (''failed to read page:'' @ e)))
   \<and> (length args = 2 \<longrightarrow> readTmpl env (args ! 1) = Inr tmpl \<longrightarrow>
      walk_pages env (args ! 1) (WalkDir env (args ! 1)) [] = Inl (Fatal line) \<longrightarrow>
      main env args w = (Some (Fatal line), w\<lparr>logged := logged w @ [line]\<rparr>))
   \<and> walk_pages env siteDir calls pages =
       walk_pages env siteDir (map (\<lambda>call. (fst call, None)) calls) pages
   \<and> (Ext path \<noteq> ''.md'' \<longrightarrow>
      walk_pages env siteDir ((path, Some e) # rest) pages = walk_pages env siteDir rest pages)"
proof -
  have 1: "walk_pages env siteDir before pages = Inr ps \<longrightarrow> Ext path = ''.md'' \<longrightarrow> ReadFile env path = Inl e \<longrightarrow>
      walk_pages env siteDir (before @ (path, err) # rest) pages = Inl (Fatal (''failed to read page:'' @ e))"
    by (simp add: walk_pages_append readPage_def)
  have 2: "length args = 2 \<longrightarrow> readTmpl env (args ! 1) = Inr tmpl \<longrightarrow>
      walk_pages env (args ! 1) (WalkDir env (args ! 1)) [] = Inl (Fatal line) \<longrightarrow>
      main env args w = (Some (Fatal line), w\<lparr>logged := logged w @ [line]\<rparr>)"
    by (simp add: main_def Let_def log_Fatal_def log_Println_def)
  have 3: "walk_pages env siteDir calls pages =
       walk_pages env siteDir (map (\<lambda>call. (fst call, None)) calls) pages"
    by (rule walk_pages_error_unread)
  have 4: "Ext path \<noteq> ''.md'' \<longrightarrow>
      walk_pages env siteDir ((path, Some e) # rest) pages = walk_pages env siteDir rest pages"
    by simp
  from 1 2 3 4 show ?thesis by (intro conjI)
qed

theorem walk_pages_failures_witness:
  "(\<exists>ps. walk_pages (unreadable ''site/notes/a.md'' sample_env) ''site'' (take 3 sample_walk) [] = Inr ps)
   \<and> Ext ''site/notes/a.md'' = ''.md''
   \<and> ReadFile (unreadable ''site/notes/a.md'' sample_env) ''site/notes/a.md''
       = Inl ''open site/notes/a.md: permission denied''
   \<and> walk_pages (unreadable ''site/notes/a.md'' sample_env) ''site''
         (WalkDir (unreadable ''site/notes/a.md'' sample_env) ''site'') []
       = Inl (Fatal ''failed to read page:open site/notes/a.md: permission denied'')
   \<and> main (unreadable ''site/notes/a.md'' sample_env) [''marc'', ''site''] sample_world
       = (Some (Fatal ''failed to read page:open site/notes/a.md: permission denied''),
          sample_world\<lparr>logged := logged sample_world
             @ [''failed to read page:open site/notes/a.md: permission denied'']\<rparr>)
   \<and> Ext ''site/private'' \<noteq> ''.md''
   \<and> walk_pages sample_env ''site''
         ((''site/private'', Some ''open site/private: permission denied'') # drop 6 sample_walk) []
       = walk_pages sample_env ''site'' (drop 6 sample_walk) []"
proof -
  let ?E = "unreadable ''site/notes/a.md'' sample_env"
  let ?line = "''failed to read page:open site/notes/a.md: permission denied''"
  have "\<not> isl (walk_pages ?E ''site'' (take 3 sample_walk) [])" by code_simp
  then obtain ps where ps: "walk_pages ?E ''site'' (take 3 sample_walk) [] = Inr ps"
    by (cases "walk_pages ?E ''site'' (take 3 sample_walk) []") auto
  have ext: "Ext ''site/notes/a.md'' = ''.md''" by code_simp
  have rd: "ReadFile ?E ''site/notes/a.md'' = Inl ''open site/notes/a.md: permission denied''"
    by (simp add: unreadable_def)
  have wk: "WalkDir ?E ''site'' = take 3 sample_walk @ (''site/notes/a.md'', None) # drop 4 sample_walk"
    by (simp add: unreadable_def sample_env_def sample_walk_def)
  from walk_pages_failures [of ?E "''site''" "take 3 sample_walk" "[]" ps "''site/notes/a.md''"
      "''open site/notes/a.md: permission denied''" None "drop 4 sample_walk"] ps ext rd
  have "walk_pages ?E ''site'' (take 3 sample_walk @ (''site/notes/a.md'', None) # drop 4 sample_walk) []
      = Inl (Fatal ?line)" by simp
  with wk have fatal: "walk_pages ?E ''site'' (WalkDir ?E ''site'') [] = Inl (Fatal ?line)" by simp
  have tm: "readTmpl ?E ''site'' = Inr ''<style>body{}</style>''" by code_simp
  from walk_pages_failures [of ?E _ _ _ _ _ _ _ _ "[''marc'', ''site'']" "''<style>body{}</style>''"
      ?line sample_world] tm fatal
  have run: "main ?E [''marc'', ''site''] sample_world
      = (Some (Fatal ?line), sample_world\<lparr>logged := logged sample_world @ [?line]\<rparr>)"
    by simp
  have ext2: "Ext ''site/private'' \<noteq> ''.md''" by code_simp
  from walk_pages_failures [of sample_env "''site''" _ "[]" _ "''site/private''"
      "''open site/private: permission denied''" _ "drop 6 sample_walk"] ext2
  have skip: "walk_pages sample_env ''site''
         ((''site/private'', Some ''open site/private: permission denied'') # drop 6 sample_walk) []
       = walk_pages sample_env ''site'' (drop 6 sample_walk) []" by blast
  from ps ext rd fatal run ext2 skip show ?thesis by blast
qed

text \<open>
  C9 as stated fails: the walk of the sample site reports that a directory cannot be
  read, and the run goes on to its normal end.
\<close>

theorem walk_error_not_fatal:
  "WalkDir sample_env ''site'' ! 5 = (''site/private'', Some ''open site/private: permission denied'')
   \<and> fst (main sample_env [''marc'', ''site''] sample_world) = None"
proof -
  have "WalkDir sample_env ''site'' ! 5 = (''site/private'', Some ''open site/private: permission denied'')"
    by (simp add: sample_env_def sample_walk_def)
  moreover have "fst (main sample_env [''marc'', ''site''] sample_world) = None"
    by code_simp
  ultimately show ?thesis by simp
qed

section \<open>The render pass\<close>

lemma render_pages_append:
  "render_pages env t pages (ps @ qs) w =
     (case render_pages env t pages ps w of
        (Some a, w') \<Rightarrow> (Some a, w')
      | (None, w') \<Rightarrow> render_pages env t pages qs w')"
  by (induction ps arbitrary: w) (auto split: prod.splits option.splits)

lemma render_page_convert_fails:
  "Convert env (Text p) = Inl e \<Longrightarrow>
   render_page env t pages p w =
     (Some (Fatal (''failed to convert markdown:'' @ e)),
      w\<lparr>logged := logged w @ [''* '' @ outPath p, ''failed to convert markdown:'' @ e]\<rparr>)"
  by (simp add: render_page_def Let_def log_Fatal_def log_Println_def)

lemma render_page_execute_fails:
  "Convert env (Text p) = Inr body \<Longrightarrow> Execute env t (p\<lparr>HTML := body\<rparr>) pages = Inl e \<Longrightarrow>
   render_page env t pages p w =
     (Some (Fatal (''failed to render page:'' @ e)),
      w\<lparr>logged := logged w @ [''* '' @ outPath p, ''failed to render page:'' @ e]\<rparr>)"
  by (simp add: render_page_def Let_def log_Fatal_def log_Println_def)

lemma render_page_write_fails:
  "Convert env (Text p) = Inr body \<Longrightarrow> Execute env t (p\<lparr>HTML := body\<rparr>) pages = Inr out \<Longrightarrow>
   WriteFault env (outPath p) = Some (e, left) \<Longrightarrow>
   render_page env t pages p w =
     (Some (Fatal (''failed to write file:'' @ e)),
      w\<lparr>files := (files w)(outPath p := left),
        logged := logged w @ [''* '' @ outPath p, ''failed to write file:'' @ e]\<rparr>)"
  by (simp add: render_page_def Let_def log_Fatal_def log_Println_def WriteFile_def)

lemma render_page_writes:
  "Convert env (Text p) = Inr body \<Longrightarrow> Execute env t (p\<lparr>HTML := body\<rparr>) pages = Inr out \<Longrightarrow>
   WriteFault env (outPath p) = None \<Longrightarrow>
   render_page env t pages p w =
     (None,
      w\<lparr>files := (files w)(outPath p \<mapsto>
              (case files w (outPath p) of
                 None \<Rightarrow> (perm0600 AND NOT (umask env), out)
               | Some (mode, old) \<Rightarrow> (mode, out))),
        logged := logged w @ [''* '' @ outPath p]\<rparr>)"
  by (simp add: render_page_def Let_def log_Println_def WriteFile_def split: option.splits)

lemma render_page_cases:
  obtains (conv_fail) e where "Convert env (Text p) = Inl e"
  | (exec_fail) body e where "Convert env (Text p) = Inr body"
      and "Execute env t (p\<lparr>HTML := body\<rparr>) pages = Inl e"
  | (write_fail) body out e rem where "Convert env (Text p) = Inr body"
      and "Execute env t (p\<lparr>HTML := body\<rparr>) pages = Inr out"
      and "WriteFault env (outPath p) = Some (e, rem)"
  | (written) body out where "Convert env (Text p) = Inr body"
      and "Execute env t (p\<lparr>HTML := body\<rparr>) pages = Inr out"
      and "WriteFault env (outPath p) = None"
proof (cases "Convert env (Text p)")
  case (Inl e)
  then show ?thesis by (rule conv_fail)
next
  case (Inr body)
  note c = this
  show ?thesis
  proof (cases "Execute env t (p\<lparr>HTML := body\<rparr>) pages")
    case (Inl e)
    with c show ?thesis by (rule exec_fail)
  next
    case (Inr out)
    note x = this
    show ?thesis
    proof (cases "WriteFault env (outPath p)")
      case None
      with c x show ?thesis by (rule written)
    next
      case (Some el)
      obtain e rem where "el = (e, rem)" by (cases el)
      with Some c x show ?thesis by (auto intro: write_fail)
    qed
  qed
qed

lemma render_page_failure:
  assumes "render_page env t pages p wa = (Some a, wb)"
  shows "\<exists>e line. a = Fatal line \<and> logged wb = logged wa @ [''* '' @ outPath p, line]
        \<and> (line = ''failed to convert markdown:'' @ e \<and> Convert env (Text p) = Inl e
              \<and> files wb = files wa
            \<or> line = ''failed to render page:'' @ e
              \<and> (\<exists>body. Convert env (Text p) = Inr body
                    \<and> Execute env t (p\<lparr>HTML := body\<rparr>) pages = Inl e)
              \<and> files wb = files wa
            \<or> line = ''failed to write file:'' @ e
              \<and> (\<exists>left. WriteFault env (outPath p) = Some (e, left)
                    \<and> files wb = (files wa)(outPath p := left)))"
proof (cases rule: render_page_cases [where env = env and p = p and t = t and pages = pages])
  case (conv_fail e)
  from render_page_convert_fails [OF this, of t pages wa] assms
  have "a = Fatal (''failed to convert markdown:'' @ e)"
    and "wb = wa\<lparr>logged := logged wa @ [''* '' @ outPath p, ''failed to convert markdown:'' @ e]\<rparr>"
    by simp_all
  with conv_fail show ?thesis by simp
next
  case (exec_fail body e)
  from render_page_execute_fails [OF this, of wa] assms
  have "a = Fatal (''failed to render page:'' @ e)"
    and "wb = wa\<lparr>logged := logged wa @ [''* '' @ outPath p, ''failed to render page:'' @ e]\<rparr>"
    by simp_all
  with exec_fail show ?thesis by simp
next
  case (write_fail body out e left)
  from render_page_write_fails [OF this, of wa] assms
  have "a = Fatal (''failed to write file:'' @ e)"
    and "wb = wa\<lparr>files := (files wa)(outPath p := left),
        logged := logged wa @ [''* '' @ outPath p, ''failed to write file:'' @ e]\<rparr>"
    by simp_all
  with write_fail show ?thesis by simp
next
  case (written body out)
  from render_page_writes [OF this, of wa] assms show ?thesis by simp
qed


lemma main_renders:
  "length args = 2 \<Longrightarrow> readTmpl env (args ! 1) = Inr t \<Longrightarrow>
   walk_pages env (args ! 1) (WalkDir env (args ! 1)) [] = Inr found \<Longrightarrow>
   main env args w = render_pages env t (Stable found) (Stable found) w"
  by (simp add: main_def Let_def)

lemma TrimSuffix_Ext: "\<exists>stem. path = stem @ Ext path \<and> TrimSuffix path (Ext path) = stem"
proof -
  from Ext_suffix [of path] obtain stem where stem: "path = stem @ Ext path"
    by (auto simp: suffix_def)
  have "TrimSuffix (stem @ Ext path) (Ext path) = stem" by (rule TrimSuffix_append)
  with stem show ?thesis by auto
qed

lemma perm0600_private: "(perm0600 AND NOT u) AND 0x3F = (0 :: 32 word)"
proof -
  have "(perm0600 AND NOT u) AND 0x3F = (perm0600 AND 0x3F) AND NOT u"
    by (simp add: ac_simps)
  also have "perm0600 AND 0x3F = (0 :: 32 word)"
    by (simp add: perm0600_def)
  finally show ?thesis by simp
qed

lemma perm0600_kept: "u AND perm0600 = 0 \<Longrightarrow> perm0600 AND NOT u = perm0600"
proof -
  assume "u AND perm0600 = 0"
  then have "perm0600 AND u = 0" by (simp add: ac_simps)
  have "perm0600 = (perm0600 AND u) OR (perm0600 AND NOT u)"
    by (simp add: bit_eq_iff bit_simps) blast
  with \<open>perm0600 AND u = 0\<close> show ?thesis by simp
qed

lemma two_elements: "length xs = 2 \<Longrightarrow> xs = take 1 xs @ xs ! 1 # []"
proof -
  assume "length xs = 2"
  then obtain x y where "xs = [x, y]"
    by (cases xs; cases "tl xs") auto
  then show ?thesis by simp
qed

lemma outPath_stem: "\<exists>stem. AbsPath p = stem @ Ext (AbsPath p) \<and> outPath p = stem @ ''.html''"
  using TrimSuffix_Ext [of "AbsPath p"] by (auto simp: outPath_def Let_def)

lemma outPath_index: "AbsPath p = dir @ ''index.md'' \<Longrightarrow> outPath p = dir @ ''index.html''"
proof -
  assume a: "AbsPath p = dir @ ''index.md''"
  have e: "Ext (dir @ ''index.md'') = ''.md''"
    using Ext_md [of "dir @ ''index''"] by simp
  have "TrimSuffix (dir @ ''index.md'') ''.md'' = dir @ ''index''"
    using TrimSuffix_append [of "dir @ ''index''" "''.md''"] by simp
  with a e show ?thesis by (simp add: outPath_def Let_def)
qed

text \<open>
  C7, as the code has it. When the pages before \<open>p\<close> are rendered and \<open>p\<close> fails, the
  pass ends there with \<^verbatim>\<open>log.Fatal\<close>, whatever pages follow. The log gains the
  progress line of \<open>p\<close>, which names its output path, and the fatal line, which is
  the kind of the failure and its cause; the source path is in neither. A failed
  conversion or rendering leaves every file as it was; a failed write leaves every file
  but the output path of \<open>p\<close> as it was. A failing conversion, a failing rendering
  and a failing write each end the pass so, and \<open>main\<close> ends as the pass does.
\<close>

theorem render_failure_aborts:
  "(render_pages env t pages before w = (None, wa) \<longrightarrow> render_page env t pages p wa = (Some a, wb) \<longrightarrow>
      render_pages env t pages (before @ p # rest) w = (Some a, wb)
      \<and> (\<exists>e line. a = Fatal line \<and> logged wb = logged wa @ [''* '' @ outPath p, line]
        \<and> (line = ''failed to convert markdown:'' @ e \<and> Convert env (Text p) = Inl e
              \<and> files wb = files wa
            \<or> line = ''failed to render page:'' @ e
              \<and> (\<exists>body. Convert env (Text p) = Inr body
                    \<and> Execute env t (p\<lparr>HTML := body\<rparr>) pages = Inl e)
              \<and> files wb = files wa
            \<or> line = ''failed to write file:'' @ e
              \<and> (\<exists>left. WriteFault env (outPath p) = Some (e, left)
                    \<and> files wb = (files wa)(outPath p := left)))))
   \<and> (Convert env (Text p) = Inl e \<longrightarrow>
      fst (render_page env t pages p wa) = Some (Fatal (''failed to convert markdown:'' @ e)))
   \<and> (Convert env (Text p) = Inr body \<longrightarrow> Execute env t (p\<lparr>HTML := body\<rparr>) pages = Inl e \<longrightarrow>
      fst (render_page env t pages p wa) = Some (Fatal (''failed to render page:'' @ e)))
   \<and> (Convert env (Text p) = Inr body \<longrightarrow> Execute env t (p\<lparr>HTML := body\<rparr>) pages = Inr out \<longrightarrow>
      WriteFault env (outPath p) = Some (e, rem) \<longrightarrow>
      fst (render_page env t pages p wa) = Some (Fatal (''failed to write file:'' @ e)))
   \<and> (length args = 2 \<longrightarrow> readTmpl env (args ! 1) = Inr t \<longrightarrow>
      walk_pages env (args ! 1) (WalkDir env (args ! 1)) [] = Inr found \<longrightarrow>
      main env args w = render_pages env t (Stable found) (Stable found) w)"
proof (intro conjI impI)
  assume "render_pages env t pages before w = (None, wa)"
    and "render_page env t pages p wa = (Some a, wb)"
  then show "render_pages env t pages (before @ p # rest) w = (Some a, wb)"
    by (simp add: render_pages_append)
next
  assume "render_page env t pages p wa = (Some a, wb)"
  then show "\<exists>e line. a = Fatal line \<and> logged wb = logged wa @ [''* '' @ outPath p, line]
        \<and> (line = ''failed to convert markdown:'' @ e \<and> Convert env (Text p) = Inl e
              \<and> files wb = files wa
            \<or> line = ''failed to render page:'' @ e
              \<and> (\<exists>body. Convert env (Text p) = Inr body
                    \<and> Execute env t (p\<lparr>HTML := body\<rparr>) pages = Inl e)
              \<and> files wb = files wa
            \<or> line = ''failed to write file:'' @ e
              \<and> (\<exists>left. WriteFault env (outPath p) = Some (e, left)
                    \<and> files wb = (files wa)(outPath p := left)))"
    by (rule render_page_failure)
next
  assume "Convert env (Text p) = Inl e"
  then show "fst (render_page env t pages p wa) = Some (Fatal (''failed to convert markdown:'' @ e))"
    by (simp add: render_page_convert_fails)
next
  assume "Convert env (Text p) = Inr body" and "Execute env t (p\<lparr>HTML := body\<rparr>) pages = Inl e"
  then show "fst (render_page env t pages p wa) = Some (Fatal (''failed to render page:'' @ e))"
    by (simp add: render_page_execute_fails)
next
  assume "Convert env (Text p) = Inr body" and "Execute env t (p\<lparr>HTML := body\<rparr>) pages = Inr out"
    and "WriteFault env (outPath p) = Some (e, rem)"
  then show "fst (render_page env t pages p wa) = Some (Fatal (''failed to write file:'' @ e))"
    by (simp add: render_page_write_fails)
next
  assume "length args = 2" and "readTmpl env (args ! 1) = Inr t"
    and "walk_pages env (args ! 1) (WalkDir env (args ! 1)) [] = Inr found"
  then show "main env args w = render_pages env t (Stable found) (Stable found) w"
    by (rule main_renders)
qed

theorem render_failure_aborts_witness:
  "fst (render_pages (broken_convert ''hello'' sample_env) ''<style>body{}</style>''
          (sample_registry (broken_convert ''hello'' sample_env))
          (take 1 (sample_registry (broken_convert ''hello'' sample_env))) sample_world) = None
   \<and> Convert (broken_convert ''hello'' sample_env)
         (Text (sample_registry (broken_convert ''hello'' sample_env) ! 1)) = Inl ''unexpected input''
   \<and> fst (main (broken_convert ''hello'' sample_env) [''marc'', ''site''] sample_world)
       = Some (Fatal ''failed to convert markdown:unexpected input'')
   \<and> logged (snd (main (broken_convert ''hello'' sample_env) [''marc'', ''site''] sample_world))
       = [''* site/index.html'', ''* site/notes/a.html'', ''failed to convert markdown:unexpected input'']
   \<and> files (snd (main (broken_convert ''hello'' sample_env) [''marc'', ''site''] sample_world))
       = files (snd (render_pages (broken_convert ''hello'' sample_env) ''<style>body{}</style>''
          (sample_registry (broken_convert ''hello'' sample_env))
          (take 1 (sample_registry (broken_convert ''hello'' sample_env))) sample_world))"
proof -
  let ?E = "broken_convert ''hello'' sample_env"
  let ?T = "''<style>body{}</style>''"
  let ?walk = "walk_pages ?E ''site'' (WalkDir ?E ''site'') []"
  let ?R = "sample_registry ?E"
  let ?r1 = "render_pages ?E ?T ?R (take 1 ?R) sample_world"
  let ?r2 = "render_page ?E ?T ?R (?R ! 1) (snd ?r1)"
  let ?line = "''failed to convert markdown:unexpected input''"
  have "\<not> isl ?walk" by code_simp
  then have walk: "?walk = Inr (projr ?walk)" by simp
  have R: "?R = Stable (projr ?walk)" by (simp add: sample_registry_def)
  have "length ?R = 2" by code_simp
  then have split: "?R = take 1 ?R @ ?R ! 1 # []" by (rule two_elements)
  have h1: "fst ?r1 = None" by code_simp
  then have r1: "?r1 = (None, snd ?r1)" by (metis prod.collapse)
  have h2: "Convert ?E (Text (?R ! 1)) = Inl ''unexpected input''" by code_simp
  note step = render_failure_aborts [THEN conjunct1, rule_format]
  note conv = render_failure_aborts [THEN conjunct2, THEN conjunct1, rule_format]
  note whole = render_failure_aborts [THEN conjunct2, THEN conjunct2, THEN conjunct2, THEN conjunct2, rule_format]
  have "fst ?r2 = Some (Fatal ?line)" using conv [OF h2] by simp
  then have r2: "?r2 = (Some (Fatal ?line), snd ?r2)" by (metis prod.collapse)
  note all = step [OF r1 r2, of "[]", THEN conjunct1]
  note ex = step [OF r1 r2, of "[]", THEN conjunct2]
  have nofault: "WriteFault ?E (outPath (?R ! 1)) = None"
    by (simp add: broken_convert_def sample_env_def)
  from ex h2 nofault have lg: "logged (snd ?r2) = logged (snd ?r1) @ [''* '' @ outPath (?R ! 1), ?line]"
    and fs: "files (snd ?r2) = files (snd ?r1)"
    by auto
  have tm: "readTmpl ?E ''site'' = Inr ?T" by code_simp
  have "main ?E [''marc'', ''site''] sample_world = render_pages ?E ?T ?R ?R sample_world"
    using whole [of "[''marc'', ''site'']" ?E ?T "projr ?walk" sample_world] tm walk
    by (simp add: R)
  with split all have run: "main ?E [''marc'', ''site''] sample_world = (Some (Fatal ?line), snd ?r2)"
    by simp
  have l1: "logged (snd ?r1) = [''* site/index.html'']" by code_simp
  have op: "outPath (?R ! 1) = ''site/notes/a.html''" by code_simp
  from run lg l1 op fs h1 h2 show ?thesis by simp
qed

text \<open>
  C7 as stated fails: the conversion of \<^verbatim>\<open>site/notes/a.md\<close> fails, the run ends with
  \<^verbatim>\<open>log.Fatal\<close>, and no line of the log mentions that source path.
\<close>

theorem failure_log_without_source_path:
  "fst (main (broken_convert ''hello'' sample_env) [''marc'', ''site''] sample_world)
     = Some (Fatal ''failed to convert markdown:unexpected input'')
   \<and> map AbsPath (sample_registry (broken_convert ''hello'' sample_env))
     = [''site/index.md'', ''site/notes/a.md'']
   \<and> logged (snd (main (broken_convert ''hello'' sample_env) [''marc'', ''site''] sample_world))
     = [''* site/index.html'', ''* site/notes/a.html'', ''failed to convert markdown:unexpected input'']
   \<and> \<not> mentions ''site/notes/a.md''
        (logged (snd (main (broken_convert ''hello'' sample_env) [''marc'', ''site''] sample_world)))"
  by code_simp

text \<open>
  C8, as the code has it. A page that converts, renders and can be written has its
  output stored under its output path: the source path with \<^verbatim>\<open>.html\<close> in the place
  of its extension, so \<^verbatim>\<open>index.html\<close> beside an \<^verbatim>\<open>index.md\<close>. A file of that name
  that exists gets the new content and keeps its permissions; a file that the write
  creates has the permissions \<^verbatim>\<open>0600\<close> less the bits of the umask, which never
  include a bit of the group or of the others, and are \<^verbatim>\<open>0600\<close> when the umask
  masks no bit of the owner.
\<close>

theorem render_page_output:
  "(Convert env (Text p) = Inr body \<longrightarrow> Execute env t (p\<lparr>HTML := body\<rparr>) pages = Inr out \<longrightarrow>
      WriteFault env (outPath p) = None \<longrightarrow>
      render_page env t pages p w =
        (None,
         w\<lparr>files := (files w)(outPath p \<mapsto>
                 (case files w (outPath p) of
                    None \<Rightarrow> (perm0600 AND NOT (umask env), out)
                  | Some (mode, old) \<Rightarrow> (mode, out))),
           logged := logged w @ [''* '' @ outPath p]\<rparr>))
   \<and> (\<exists>stem. AbsPath p = stem @ Ext (AbsPath p) \<and> outPath p = stem @ ''.html'')
   \<and> (AbsPath p = dir @ ''index.md'' \<longrightarrow> outPath p = dir @ ''index.html'')
   \<and> (perm0600 AND NOT u) AND 0x3F = 0
   \<and> (u AND perm0600 = 0 \<longrightarrow> perm0600 AND NOT u = perm0600)"
  using render_page_writes [of env p body t pages out w] outPath_stem [of p]
    outPath_index [of p dir] perm0600_private [of u] perm0600_kept [of u]
  by (intro conjI impI)

theorem render_page_output_witness:
  "Convert sample_env (Text (sample_registry sample_env ! 0)) = Inr ''<p>\<newline># Home</p>''
   \<and> Execute sample_env ''<style>body{}</style>''
         ((sample_registry sample_env ! 0)\<lparr>HTML := ''<p>\<newline># Home</p>''\<rparr>) (sample_registry sample_env)
       = Inr ''<style>body{}</style><p>\<newline># Home</p>''
   \<and> WriteFault sample_env (outPath (sample_registry sample_env ! 0)) = None
   \<and> AbsPath (sample_registry sample_env ! 0) = ''site/'' @ ''index.md''
   \<and> outPath (sample_registry sample_env ! 0) = ''site/index.html''
   \<and> files (snd (render_page sample_env ''<style>body{}</style>'' (sample_registry sample_env)
         (sample_registry sample_env ! 0) sample_world)) ''site/index.html''
       = Some (0x180, ''<style>body{}</style><p>\<newline># Home</p>'')
   \<and> files (snd (render_page sample_env ''<style>body{}</style>'' (sample_registry sample_env)
         (sample_registry sample_env ! 0) old_world)) ''site/index.html''
       = Some (0x1A4, ''<style>body{}</style><p>\<newline># Home</p>'')
   \<and> umask sample_env AND perm0600 = 0
   \<and> perm0600 AND NOT (umask sample_env) = perm0600"
proof -
  let ?R = "sample_registry sample_env"
  let ?T = "''<style>body{}</style>''"
  let ?body = "''<p>\<newline># Home</p>''"
  let ?out = "''<style>body{}</style><p>\<newline># Home</p>''"
  note wr = render_page_output [THEN conjunct1, rule_format]
  note ix = render_page_output [THEN conjunct2, THEN conjunct2, THEN conjunct1, rule_format]
  note um = render_page_output [THEN conjunct2, THEN conjunct2, THEN conjunct2, THEN conjunct2, rule_format]
  have h1: "Convert sample_env (Text (?R ! 0)) = Inr ?body" by code_simp
  have h2: "Execute sample_env ?T ((?R ! 0)\<lparr>HTML := ?body\<rparr>) ?R = Inr ?out" by code_simp
  have h4: "AbsPath (?R ! 0) = ''site/'' @ ''index.md''" by code_simp
  from ix [OF h4] have op: "outPath (?R ! 0) = ''site/index.html''" by simp
  have h3: "WriteFault sample_env (outPath (?R ! 0)) = None" by (simp add: sample_env_def)
  from wr [OF h1 h2 h3, of sample_world] op
  have f1: "files (snd (render_page sample_env ?T ?R (?R ! 0) sample_world)) ''site/index.html''
      = Some (0x180, ?out)"
    by (simp add: sample_world_def sample_env_def perm0600_def)
  from wr [OF h1 h2 h3, of old_world] op
  have f2: "files (snd (render_page sample_env ?T ?R (?R ! 0) old_world)) ''site/index.html''
      = Some (0x1A4, ?out)"
    by (simp add: old_world_def)
  have h5: "umask sample_env AND perm0600 = 0" by (simp add: sample_env_def perm0600_def)
  from um [OF h5] have k: "perm0600 AND NOT (umask sample_env) = perm0600" .
  from h1 h2 h3 h4 op f1 f2 h5 k show ?thesis by (intro conjI)
qed

text \<open>
  C8 as stated fails: an output file that exists with the permissions \<^verbatim>\<open>0644\<close> is
  overwritten and still has them, readable by the group and by the others.
\<close>

theorem existing_file_keeps_mode:
  "files old_world ''site/index.html'' = Some (0x1A4, ''old'')
   \<and> fst (main sample_env [''marc'', ''site''] old_world) = None
   \<and> files (snd (main sample_env [''marc'', ''site''] old_world)) ''site/index.html''
       = Some (0x1A4, ''<style>body{}</style><p>\<newline># Home</p>'')
   \<and> (0x1A4 :: 32 word) AND 0x3F = 0x24"
  by code_simp

end
